theory Spec2Isabelle
  imports Complex_Main "HOL-Library.Word" "HOL-Library.Multiset" "HOL-Library.Product_Lexorder"
begin

section \<open>Status values\<close>

text \<open>
  \<^verbatim>\<open>tensorflow::Status\<close>: either OK or an error code with a message. Only the code
  \<^verbatim>\<open>InvalidArgument\<close> is raised by the kernel itself; every other code comes from a
  collaborator and is kept as a number.
\<close>

datatype error_code = INVALID_ARGUMENT | OTHER_CODE nat

datatype status = OK | Error error_code string

fun ok :: "status \<Rightarrow> bool" where
  "ok OK = True"
| "ok (Error c m) = False"

section \<open>The simulation primitives\<close>

text \<open>
  The state-space and simulator objects (\<^verbatim>\<open>qsim::SimulatorCUDA<float>\<close> and its
  \<^verbatim>\<open>StateSpace\<close>) and \<^verbatim>\<open>ComputeExpectationQsim\<close> are not part of the kernel's file.
  They are parameters of the model, collected in a record:
  \<^item> \<open>Create n\<close> is \<^verbatim>\<open>ss.Create(n)\<close>;
  \<^item> \<open>SetStateZero b\<close> is the buffer after \<^verbatim>\<open>ss.SetStateZero(b)\<close>;
  \<^item> \<open>ApplyFusedGate g b\<close> is the buffer after \<^verbatim>\<open>qsim::ApplyFusedGate(sim, g, b)\<close>;
  \<^item> \<open>ComputeExpectationQsim p sv scratch\<close> is the returned status, the value left in
    \<^verbatim>\<open>exp_v\<close> (which the caller initialises to 0.0), and both buffers after the call
    (they are passed by reference, so the primitive may change either).
\<close>

record ('buf, 'gate, 'psum) engine =
  Create :: "int \<Rightarrow> 'buf"
  SetStateZero :: "'buf \<Rightarrow> 'buf"
  ApplyFusedGate :: "'gate \<Rightarrow> 'buf \<Rightarrow> 'buf"
  ComputeExpectationQsim :: "'psum \<Rightarrow> 'buf \<Rightarrow> 'buf \<Rightarrow> status \<times> real \<times> 'buf \<times> 'buf"

section \<open>ComputeLarge\<close>

text \<open>
  Every call of a primitive and every store into the output tensor is recorded, in
  program order, in the field \<open>calls\<close> of the loop state. The record is a ghost of the
  model: the source keeps no such list.
\<close>

datatype 'gate event =
    EvCreate int
  | EvSetStateZero
  | EvApply 'gate
  | EvExpect nat nat status
  | EvWrite nat nat real

record ('buf, 'gate) sim_state =
  largest_nq :: int
  sv :: 'buf
  scratch :: 'buf
  output_tensor :: "real list list"
  calls :: "'gate event list"

text \<open>
  A run of the kernel either reaches its end (\<open>Done\<close>), or returns early through
  \<^verbatim>\<open>OP_REQUIRES_OK\<close> with a failed status (\<open>Failed\<close>), or indexes a vector or the output
  tensor out of range, which C++ leaves undefined (\<open>Undefined\<close>).
\<close>

datatype 'a outcome = Done 'a | Failed status 'a | Undefined

text \<open>\<^verbatim>\<open>(*output_tensor)(i, j) = v\<close> on a tensor stored as a list of rows.\<close>

definition write_cell :: "nat \<Rightarrow> nat \<Rightarrow> real \<Rightarrow> real list list \<Rightarrow> real list list option" where
  "write_cell i j v out =
     (if i < length out \<and> j < length (out ! i) then Some (out[i := (out ! i)[j := v]])
      else None)"

definition store :: "nat \<Rightarrow> nat \<Rightarrow> real \<Rightarrow> ('buf, 'gate) sim_state \<Rightarrow> ('buf, 'gate) sim_state option" where
  "store i j v st =
     (case write_cell i j v (output_tensor st) of
        None \<Rightarrow> None
      | Some out \<Rightarrow> Some (st\<lparr>output_tensor := out, calls := calls st @ [EvWrite i j v]\<rparr>))"

text \<open>
  The inner loop over \<^verbatim>\<open>pauli_sums[i]\<close>: \<open>ps\<close> is the part of the row still to be
  visited and \<open>j\<close> the index of its head. \<open>gates\<close> is \<^verbatim>\<open>fused_circuits[i]\<close>.
\<close>

fun observables_loop ::
  "('buf, 'gate, 'psum) engine \<Rightarrow> nat \<Rightarrow> 'gate list \<Rightarrow> 'psum list \<Rightarrow> nat \<Rightarrow>
   ('buf, 'gate) sim_state \<Rightarrow> ('buf, 'gate) sim_state outcome" where
  "observables_loop E i gates [] j st = Done st"
| "observables_loop E i gates (p # ps) j st =
     (if length gates = 0 then
        (case store i j (- 2) st of
           None \<Rightarrow> Undefined
         | Some st' \<Rightarrow> observables_loop E i gates ps (Suc j) st')
      else
        (case ComputeExpectationQsim E p (sv st) (scratch st) of
           (local, exp_v, sv', scratch') \<Rightarrow>
             let st1 = st\<lparr>sv := sv', scratch := scratch',
                          calls := calls st @ [EvExpect i j local]\<rparr>
             in if \<not> ok local then Failed local st1
                else (case store i j exp_v st1 of
                        None \<Rightarrow> Undefined
                      | Some st2 \<Rightarrow> observables_loop E i gates ps (Suc j) st2)))"

text \<open>The switch to a larger state space at the head of the outer loop's body.\<close>

definition grow :: "('buf, 'gate, 'psum) engine \<Rightarrow> int \<Rightarrow> ('buf, 'gate) sim_state \<Rightarrow> ('buf, 'gate) sim_state" where
  "grow E nq st =
     (if nq > largest_nq st then
        st\<lparr>largest_nq := nq, sv := Create E nq, scratch := Create E nq,
           calls := calls st @ [EvCreate nq, EvCreate nq]\<rparr>
      else st)"

definition set_zero :: "('buf, 'gate, 'psum) engine \<Rightarrow> ('buf, 'gate) sim_state \<Rightarrow> ('buf, 'gate) sim_state" where
  "set_zero E st = st\<lparr>sv := SetStateZero E (sv st), calls := calls st @ [EvSetStateZero]\<rparr>"

fun apply_gates :: "('buf, 'gate, 'psum) engine \<Rightarrow> 'gate list \<Rightarrow> ('buf, 'gate) sim_state \<Rightarrow> ('buf, 'gate) sim_state" where
  "apply_gates E [] st = st"
| "apply_gates E (g # gs) st =
     apply_gates E gs (st\<lparr>sv := ApplyFusedGate E g (sv st), calls := calls st @ [EvApply g]\<rparr>)"

text \<open>The body of the outer loop for circuit \<open>i\<close> with qubit count \<open>nq\<close>.\<close>

definition simulate_circuit ::
  "('buf, 'gate, 'psum) engine \<Rightarrow> nat \<Rightarrow> int \<Rightarrow> 'gate list \<Rightarrow> 'psum list \<Rightarrow>
   ('buf, 'gate) sim_state \<Rightarrow> ('buf, 'gate) sim_state outcome" where
  "simulate_circuit E i nq gates ps st =
     observables_loop E i gates ps 0 (apply_gates E gates (set_zero E (grow E nq st)))"

text \<open>
  The outer loop over \<^verbatim>\<open>fused_circuits\<close>: \<open>fcs\<close> is the part still to be visited and
  \<open>i\<close> the index of its head. \<^verbatim>\<open>num_qubits[i]\<close> and \<^verbatim>\<open>pauli_sums[i]\<close> are read by index;
  the source does not compare the three lengths.
\<close>

fun circuits_loop ::
  "('buf, 'gate, 'psum) engine \<Rightarrow> int list \<Rightarrow> 'psum list list \<Rightarrow> nat \<Rightarrow> 'gate list list \<Rightarrow>
   ('buf, 'gate) sim_state \<Rightarrow> ('buf, 'gate) sim_state outcome" where
  "circuits_loop E num_qubits pauli_sums i [] st = Done st"
| "circuits_loop E num_qubits pauli_sums i (gates # fcs) st =
     (if i < length num_qubits \<and> i < length pauli_sums then
        (case simulate_circuit E i (num_qubits ! i) gates (pauli_sums ! i) st of
           Done st' \<Rightarrow> circuits_loop E num_qubits pauli_sums (Suc i) fcs st'
         | Failed e st' \<Rightarrow> Failed e st'
         | Undefined \<Rightarrow> Undefined)
      else Undefined)"

definition initial_state :: "('buf, 'gate, 'psum) engine \<Rightarrow> real list list \<Rightarrow> ('buf, 'gate) sim_state" where
  "initial_state E out =
     \<lparr>largest_nq = 1, sv = Create E 1, scratch = Create E 1, output_tensor = out,
      calls = [EvCreate 1, EvCreate 1]\<rparr>"

definition ComputeLarge ::
  "('buf, 'gate, 'psum) engine \<Rightarrow> int list \<Rightarrow> 'gate list list \<Rightarrow> 'psum list list \<Rightarrow>
   real list list \<Rightarrow> ('buf, 'gate) sim_state outcome" where
  "ComputeLarge E num_qubits fused_circuits pauli_sums out =
     circuits_loop E num_qubits pauli_sums 0 fused_circuits (initial_state E out)"

section \<open>Reading the record of calls\<close>

fun state_of :: "'a outcome \<Rightarrow> 'a option" where
  "state_of (Done s) = Some s"
| "state_of (Failed e s) = Some s"
| "state_of Undefined = None"

text \<open>The stores of a list of events, applied in order to a tensor.\<close>

fun apply_event :: "'gate event \<Rightarrow> real list list \<Rightarrow> real list list" where
  "apply_event (EvWrite i j v) out = out[i := (out ! i)[j := v]]"
| "apply_event ev out = out"

fun replay :: "'gate event list \<Rightarrow> real list list \<Rightarrow> real list list" where
  "replay [] out = out"
| "replay (ev # evs) out = replay evs (apply_event ev out)"

text \<open>The cells stored to, the expectation calls and the allocations of a list of events.\<close>

fun writes :: "'gate event list \<Rightarrow> (nat \<times> nat) list" where
  "writes [] = []"
| "writes (EvWrite i j v # evs) = (i, j) # writes evs"
| "writes (ev # evs) = writes evs"

fun expects :: "'gate event list \<Rightarrow> (nat \<times> nat \<times> status) list" where
  "expects [] = []"
| "expects (EvExpect i j e # evs) = (i, j, e) # expects evs"
| "expects (ev # evs) = expects evs"

fun creates :: "'gate event list \<Rightarrow> int list" where
  "creates [] = []"
| "creates (EvCreate n # evs) = n # creates evs"
| "creates (ev # evs) = creates evs"

text \<open>A cell that lies inside a tensor.\<close>

definition in_range :: "real list list \<Rightarrow> nat \<times> nat \<Rightarrow> bool" where
  "in_range out p = (fst p < length out \<and> snd p < length (out ! fst p))"

text \<open>Every expectation call of a list of events returned OK.\<close>

definition ok_all :: "'gate event list \<Rightarrow> bool" where
  "ok_all evs = (\<forall>x \<in> set (expects evs). ok (snd (snd x)))"

text \<open>
  A list of events that ends with a failed expectation call for cell \<open>(i, j)\<close>, after
  expectation calls that all returned OK and stores to earlier cells only.
\<close>

definition fails_at :: "status \<Rightarrow> nat \<Rightarrow> nat \<Rightarrow> 'gate event list \<Rightarrow> bool" where
  "fails_at e i j evs =
     (\<not> ok e \<and> (\<exists>pre. evs = pre @ [EvExpect i j e] \<and> ok_all pre \<and>
        (\<forall>p \<in> set (writes pre). p < (i, j))))"

text \<open>
  The calls made for one circuit before its observables are visited, when the capacity
  on entry is \<open>cap\<close>.
\<close>

definition prelude :: "int \<Rightarrow> int \<Rightarrow> 'gate list \<Rightarrow> 'gate event list" where
  "prelude cap nq gates =
     (if nq > cap then [EvCreate nq, EvCreate nq] else []) @ EvSetStateZero # map EvApply gates"

section \<open>The kernel: Compute\<close>

text \<open>
  A tensor handed to the kernel: its dimension sizes (64-bit values in the source) and
  its elements in row-major order, strings for a string tensor and numbers for a float
  tensor.
\<close>

record tensor =
  dims :: "int list"
  strs :: "string list"
  vals :: "real list"

text \<open>
  The kernel context: the inputs, the status \<^verbatim>\<open>allocate_output\<close> returns, and what the
  newly allocated output memory holds (the source does not initialise it).
\<close>

record op_context =
  inputs :: "tensor list"
  alloc_status :: status
  fresh :: "nat \<Rightarrow> nat \<Rightarrow> real"

text \<open>
  \<^verbatim>\<open>t.dim_size(d)\<close>; the library aborts the process when \<open>d\<close> is not a dimension of
  \<open>t\<close>.
\<close>

definition dim_size :: "tensor \<Rightarrow> nat \<Rightarrow> int option" where
  "dim_size t d = (if d < length (dims t) then Some (dims t ! d) else None)"

text \<open>The conversion of a 64-bit value to \<^verbatim>\<open>int\<close> (32 bits, two's complement).\<close>

definition to_int32 :: "int \<Rightarrow> int" where
  "to_int32 x = sint (word_of_int x :: 32 word)"

text \<open>The output tensor of the given shape, as allocated.\<close>

definition allocate_output :: "op_context \<Rightarrow> nat \<Rightarrow> nat \<Rightarrow> real list list" where
  "allocate_output ctx b m = map (\<lambda>i. map (fresh ctx i) [0..<m]) [0..<b]"

text \<open>\<^verbatim>\<open>absl::StrCat\<close> of a number: its decimal digits.\<close>

fun show_nat :: "nat \<Rightarrow> string" where
  "show_nat n =
     (if n < 10 then [''0123456789'' ! n] else show_nat (n div 10) @ [''0123456789'' ! (n mod 10)])"

declare show_nat.simps [simp del]

definition show_int :: "int \<Rightarrow> string" where
  "show_int i = (if i < 0 then CHR ''-'' # show_nat (nat (- i)) else show_nat (nat i))"

text \<open>
  The collaborators of the construction phase are parameters of the model:
  \<^item> \<open>parse_programs\<close> is the parsing of the program and observable tensors into
    programs, qubit counts and rows of observables;
  \<^item> \<open>GetSymbolMaps\<close> is \<^verbatim>\<open>GetSymbolMaps\<close>;
  \<^item> \<open>QsimCircuitFromProgram p m nq\<close> is the status \<^verbatim>\<open>QsimCircuitFromProgram\<close> returns
    and what it leaves in the two slots it is given, which are a default circuit and an
    empty gate list when it is called;
  \<^item> \<open>QsimCircuit0\<close> is the default-constructed \<^verbatim>\<open>QsimCircuit()\<close>.
\<close>

record ('prog, 'smap, 'circ, 'gate, 'psum) collaborators =
  parse_programs :: "op_context \<Rightarrow> status \<times> 'prog list \<times> int list \<times> 'psum list list"
  GetSymbolMaps :: "op_context \<Rightarrow> status \<times> 'smap list"
  QsimCircuitFromProgram :: "'prog \<Rightarrow> 'smap \<Rightarrow> int \<Rightarrow> status \<times> 'circ \<times> 'gate list"
  QsimCircuit0 :: 'circ

text \<open>
  Modelled from the spec: \<^verbatim>\<open>GetProgramsAndNumQubits\<close> (parse_context.h) is not among the
  sources. Sections 6 and 7 of the specification: the row counts of all batched inputs
  must be consistent, and a mismatch between circuits and observables is an argument
  error reported before any construction. The model parses, then compares the number of
  programs with the number of qubit counts and of observable rows.
\<close>

definition GetProgramsAndNumQubits ::
  "('prog, 'smap, 'circ, 'gate, 'psum) collaborators \<Rightarrow> op_context \<Rightarrow>
   status \<times> 'prog list \<times> int list \<times> 'psum list list" where
  "GetProgramsAndNumQubits C ctx =
     (case parse_programs C ctx of
        (st, programs, num_qubits, pauli_sums) \<Rightarrow>
          if \<not> ok st then (st, [], [], [])
          else if length programs \<noteq> length pauli_sums \<or> length programs \<noteq> length num_qubits
          then (Error INVALID_ARGUMENT ''Number of circuits and PauliSums do not match.'',
                [], [], [])
          else (OK, programs, num_qubits, pauli_sums))"

text \<open>
  Modelled from the spec: the macro \<^verbatim>\<open>NESTED_FN_STATUS_SYNC\<close> is not among the sources.
  Sections 4.2 and 5 of the specification: on failure a worker records its error in the
  shared status under the mutex, a recorded error is never overwritten, and the worker
  goes on with its remaining circuits. The model is the new value of the shared status.
\<close>

definition NESTED_FN_STATUS_SYNC :: "status \<Rightarrow> status \<Rightarrow> status" where
  "NESTED_FN_STATUS_SYNC global_status local_status =
     (if \<not> ok local_status \<and> ok global_status then local_status else global_status)"

text \<open>
  The state of the construction phase: the two vectors of slots, the shared status, and
  (a ghost of the model) the indices whose loop body has run, in order.
\<close>

record ('circ, 'gate) build_state =
  qsim_circuits :: "'circ list"
  fused_circuits :: "'gate list list"
  parse_status :: status
  built :: "nat list"

text \<open>The body of the loop of \<^verbatim>\<open>construct_f\<close> for index \<open>i\<close>.\<close>

definition construct_body ::
  "('prog, 'smap, 'circ, 'gate, 'psum) collaborators \<Rightarrow> 'prog list \<Rightarrow> 'smap list \<Rightarrow> int list \<Rightarrow>
   nat \<Rightarrow> ('circ, 'gate) build_state \<Rightarrow> ('circ, 'gate) build_state option" where
  "construct_body C programs maps num_qubits i st =
     (if i < length programs \<and> i < length maps \<and> i < length num_qubits \<and>
         i < length (qsim_circuits st) \<and> i < length (fused_circuits st) then
        (case QsimCircuitFromProgram C (programs ! i) (maps ! i) (num_qubits ! i) of
           (local, circuit, fused) \<Rightarrow>
             Some \<lparr>qsim_circuits = (qsim_circuits st)[i := circuit],
                   fused_circuits = (fused_circuits st)[i := fused],
                   parse_status = NESTED_FN_STATUS_SYNC (parse_status st) local,
                   built = built st @ [i]\<rparr>)
      else None)"

text \<open>
  The loop bodies for a list of indices, one after another. The worker threads of
  \<^verbatim>\<open>ParallelFor\<close> interleave, but a loop body touches only the slots of its own index
  and the shared status, and the latter under the mutex: a run of the construction phase
  is the sequence in which the bodies take effect, which this list gives.
\<close>

fun run_schedule ::
  "('prog, 'smap, 'circ, 'gate, 'psum) collaborators \<Rightarrow> 'prog list \<Rightarrow> 'smap list \<Rightarrow> int list \<Rightarrow>
   nat list \<Rightarrow> ('circ, 'gate) build_state \<Rightarrow> ('circ, 'gate) build_state option" where
  "run_schedule C programs maps num_qubits [] st = Some st"
| "run_schedule C programs maps num_qubits (i # order) st =
     (case construct_body C programs maps num_qubits i st of
        None \<Rightarrow> None
      | Some st' \<Rightarrow> run_schedule C programs maps num_qubits order st')"

text \<open>\<^verbatim>\<open>construct_f(start, end)\<close>: the loop from \<open>start\<close> up to \<open>end\<close>.\<close>

definition construct_f ::
  "('prog, 'smap, 'circ, 'gate, 'psum) collaborators \<Rightarrow> 'prog list \<Rightarrow> 'smap list \<Rightarrow> int list \<Rightarrow>
   nat \<Rightarrow> nat \<Rightarrow> ('circ, 'gate) build_state \<Rightarrow> ('circ, 'gate) build_state option" where
  "construct_f C programs maps num_qubits start end' st =
     run_schedule C programs maps num_qubits [start..<end'] st"

text \<open>
  The chunks \<^verbatim>\<open>ParallelFor\<close> cuts the range \<open>[0, n)\<close> into for a block size \<open>k\<close>,
  the indices of a list of chunks, and the chunks run one after another.
\<close>

definition chunks_of :: "nat \<Rightarrow> nat \<Rightarrow> (nat \<times> nat) list" where
  "chunks_of k n = map (\<lambda>b. (b * k, min ((b + 1) * k) n)) [0..<(n + k - 1) div k]"

definition schedule_of :: "(nat \<times> nat) list \<Rightarrow> nat list" where
  "schedule_of chunks = concat (map (\<lambda>c. [fst c..<snd c]) chunks)"

fun run_chunks ::
  "('prog, 'smap, 'circ, 'gate, 'psum) collaborators \<Rightarrow> 'prog list \<Rightarrow> 'smap list \<Rightarrow> int list \<Rightarrow>
   (nat \<times> nat) list \<Rightarrow> ('circ, 'gate) build_state \<Rightarrow> ('circ, 'gate) build_state option" where
  "run_chunks C programs maps num_qubits [] st = Some st"
| "run_chunks C programs maps num_qubits (c # cs) st =
     (case construct_f C programs maps num_qubits (fst c) (snd c) st of
        None \<Rightarrow> None
      | Some st' \<Rightarrow> run_chunks C programs maps num_qubits cs st')"

text \<open>
  What a run of the kernel leaves: the status of the context, the output tensor if it
  was allocated, the state of the construction phase if that phase was entered, and the
  calls of the simulation phase (none if \<^verbatim>\<open>ComputeLarge\<close> was not entered).
\<close>

record ('circ, 'gate) kernel_result =
  ctx_status :: status
  expectations :: "real list list option"
  construction :: "('circ, 'gate) build_state option"
  simulation :: "'gate event list"

text \<open>
  The end of \<^verbatim>\<open>Compute\<close>, from the return of \<^verbatim>\<open>ParallelFor\<close> on: the check of
  \<^verbatim>\<open>parse_status\<close> and the call of \<^verbatim>\<open>ComputeLarge\<close>.
\<close>

definition after_barrier ::
  "('buf, 'gate, 'psum) engine \<Rightarrow> int list \<Rightarrow> 'psum list list \<Rightarrow> real list list \<Rightarrow>
   ('circ, 'gate) build_state \<Rightarrow> ('circ, 'gate) kernel_result option" where
  "after_barrier E num_qubits pauli_sums out bs =
     (if \<not> ok (parse_status bs) then
        Some \<lparr>ctx_status = parse_status bs, expectations = Some out,
              construction = Some bs, simulation = []\<rparr>
      else
        (case ComputeLarge E num_qubits (fused_circuits bs) pauli_sums out of
           Done s \<Rightarrow>
             Some \<lparr>ctx_status = OK, expectations = Some (output_tensor s),
                   construction = Some bs, simulation = calls s\<rparr>
         | Failed e s \<Rightarrow>
             Some \<lparr>ctx_status = e, expectations = Some (output_tensor s),
                   construction = Some bs, simulation = calls s\<rparr>
         | Undefined \<Rightarrow> None))"

text \<open>
  \<^verbatim>\<open>Compute\<close>. \<open>order\<close> is the sequence in which the loop bodies of the construction
  phase take effect. The result is \<open>None\<close> when the process aborts in a library check
  (a missing dimension, a negative dimension size) or the run is undefined. The loop
  that computes \<^verbatim>\<open>max_num_qubits\<close> has no effect on the result and is left out.
\<close>

definition Compute ::
  "('buf, 'gate, 'psum) engine \<Rightarrow> ('prog, 'smap, 'circ, 'gate, 'psum) collaborators \<Rightarrow>
   nat list \<Rightarrow> op_context \<Rightarrow> ('circ, 'gate) kernel_result option" where
  "Compute E C order ctx =
     (let num_inputs = int (length (inputs ctx)) in
      if num_inputs \<noteq> 4 then
        Some \<lparr>ctx_status = Error INVALID_ARGUMENT
                 (''Expected 4 inputs, got '' @ show_int num_inputs @ '' inputs.''),
              expectations = None, construction = None, simulation = []\<rparr>
      else
        (case (dim_size (inputs ctx ! 0) 0, dim_size (inputs ctx ! 3) 1) of
           (Some d0, Some d1) \<Rightarrow>
             let output_dim_batch_size = to_int32 d0;
                 output_dim_op_size = to_int32 d1
             in
             if output_dim_batch_size < 0 \<or> output_dim_op_size < 0 then None
             else if \<not> ok (alloc_status ctx) then
               Some \<lparr>ctx_status = alloc_status ctx, expectations = None, construction = None,
                     simulation = []\<rparr>
             else
               let out = allocate_output ctx (nat output_dim_batch_size) (nat output_dim_op_size)
               in
               (case GetProgramsAndNumQubits C ctx of
                  (st1, programs, num_qubits, pauli_sums) \<Rightarrow>
                    if \<not> ok st1 then
                      Some \<lparr>ctx_status = st1, expectations = Some out, construction = None,
                            simulation = []\<rparr>
                    else
                      (case GetSymbolMaps C ctx of
                         (st2, maps) \<Rightarrow>
                           if \<not> ok st2 then
                             Some \<lparr>ctx_status = st2, expectations = Some out, construction = None,
                                   simulation = []\<rparr>
                           else if length programs \<noteq> length maps then
                             Some \<lparr>ctx_status = Error INVALID_ARGUMENT
                                      (''Number of circuits and symbol_values do not match. Got ''
                                       @ show_nat (length programs) @ '' circuits and ''
                                       @ show_nat (length maps) @ '' symbol values.''),
                                   expectations = Some out, construction = None, simulation = []\<rparr>
                           else
                             (case run_schedule C programs maps num_qubits order
                                     \<lparr>qsim_circuits = replicate (length programs) (QsimCircuit0 C),
                                      fused_circuits = replicate (length programs) [],
                                      parse_status = OK, built = []\<rparr> of
                                None \<Rightarrow> None
                              | Some bs \<Rightarrow>
                                  after_barrier E num_qubits pauli_sums out bs)))
         | _ \<Rightarrow> None))"





text \<open>The shared status after the local statuses of a list of loop bodies, in order.\<close>

definition recorded :: "status list \<Rightarrow> status \<Rightarrow> status" where
  "recorded ls g = fold (\<lambda>l g. NESTED_FN_STATUS_SYNC g l) ls g"

text \<open>
  What a caller can see of a run: whether it succeeded, the output tensor, the built
  circuits and the calls of the simulation phase. Which error a failed run reports and
  the order in which the circuits were built are left out.
\<close>

definition observable ::
  "('circ, 'gate) kernel_result \<Rightarrow>
   bool \<times> real list list option \<times> ('circ list \<times> 'gate list list) option \<times> 'gate event list" where
  "observable r =
     (ok (ctx_status r), expectations r,
      map_option (\<lambda>b. (qsim_circuits b, fused_circuits b)) (construction r), simulation r)"

section \<open>A circuit simulated alone\<close>




section \<open>A small engine for worked examples\<close>

text \<open>
  A buffer is its capacity and one number standing for its contents. Fresh buffers hold
  7, not 0. A gate adds its number to the contents; an observable \<open>p\<close> has expectation
  \<open>p\<close> times the contents, is rejected when negative, and leaves a copy of the state in
  the scratch buffer.
\<close>

definition demo_engine :: "(int \<times> int, int, int) engine" where
  "demo_engine =
     \<lparr>Create = (\<lambda>n. (n, 7)),
      SetStateZero = (\<lambda>b. (fst b, 0)),
      ApplyFusedGate = (\<lambda>g b. (fst b, snd b + g)),
      ComputeExpectationQsim = (\<lambda>p a s.
        (if p < 0 then Error (OTHER_CODE 3) ''term'' else OK,
         real_of_int (p * snd a), a, (fst s, snd a)))\<rparr>"



text \<open>
  Collaborators and contexts for worked examples. A program is a string and its qubit
  count the length of the string; a program that contains \<open>x\<close> fails to build; the
  letter \<open>a\<close> is the gate 1 and any other letter the gate 2. An observable is the length
  of its string less one. A context has one symbol, one row of symbol values per entry
  of \<open>vs\<close>, and two observables per program.
\<close>

definition demo_rows :: "tensor \<Rightarrow> int list list" where
  "demo_rows t =
     (let m = nat (dims t ! 1)
      in map (\<lambda>i. map (\<lambda>j. int (length (strs t ! (i * m + j))) - 1) [0..<m])
           [0..<nat (dims t ! 0)])"

definition demo_collaborators :: "(string, real, string, int, int) collaborators" where
  "demo_collaborators =
     \<lparr>parse_programs = (\<lambda>ctx.
        (OK, strs (inputs ctx ! 0), map (\<lambda>p. int (length p)) (strs (inputs ctx ! 0)),
         demo_rows (inputs ctx ! 3))),
      GetSymbolMaps = (\<lambda>ctx. (OK, vals (inputs ctx ! 2))),
      QsimCircuitFromProgram = (\<lambda>p m nq.
        (if CHR ''x'' \<in> set p then Error (OTHER_CODE 5) p else OK, p,
         map (\<lambda>c. if c = CHR ''a'' then 1 else 2) p)),
      QsimCircuit0 = ''''\<rparr>"

definition demo_context :: "string list \<Rightarrow> real list \<Rightarrow> op_context" where
  "demo_context ps vs =
     \<lparr>inputs =
        [\<lparr>dims = [int (length ps)], strs = ps, vals = []\<rparr>,
         \<lparr>dims = [1], strs = [''t''], vals = []\<rparr>,
         \<lparr>dims = [int (length vs), 1], strs = [], vals = vs\<rparr>,
         \<lparr>dims = [int (length ps), 2], strs = concat (map (\<lambda>p. [''zz'', ''z'']) ps), vals = []\<rparr>],
      alloc_status = OK,
      fresh = (\<lambda>i j. 9)\<rparr>"

section \<open>Lists of events\<close>

lemma replay_append: "replay (xs @ ys) out = replay ys (replay xs out)"
  by (induction xs arbitrary: out) auto

lemma writes_append: "writes (xs @ ys) = writes xs @ writes ys"
  by (induction xs rule: writes.induct) auto

lemma expects_append: "expects (xs @ ys) = expects xs @ expects ys"
  by (induction xs rule: expects.induct) auto

lemma creates_append: "creates (xs @ ys) = creates xs @ creates ys"
  by (induction xs rule: creates.induct) auto

lemma store_Some:
  "store i j v st = Some s \<longleftrightarrow>
     i < length (output_tensor st) \<and> j < length (output_tensor st ! i) \<and>
     s = st\<lparr>output_tensor := (output_tensor st)[i := (output_tensor st ! i)[j := v]],
            calls := calls st @ [EvWrite i j v]\<rparr>"
  by (auto simp: store_def write_cell_def)

lemma map_length_update:
  "map length (out[i := (out ! i)[j := v]]) = map length out"
proof (cases "i < length out")
  case True
  then show ?thesis by (simp add: map_update list_update_same_conv)
next
  case False
  then show ?thesis by (simp add: list_update_beyond)
qed

lemma apply_event_shape: "map length (apply_event ev out) = map length out"
  by (cases ev) (simp_all add: map_length_update)

lemma replay_shape: "map length (replay evs out) = map length out"
  by (induction evs arbitrary: out) (simp_all add: apply_event_shape)

lemma replay_untouched:
  "(i, j) \<notin> set (writes evs) \<Longrightarrow> replay evs out ! i ! j = out ! i ! j"
proof (induction evs arbitrary: out rule: writes.induct)
  case (2 a b v evs)
  then have ne: "a \<noteq> i \<or> b \<noteq> j" by auto
  have "out[a := (out ! a)[b := v]] ! i ! j = out ! i ! j"
    using ne by (cases "a = i"; cases "a < length out") (auto simp: list_update_beyond)
  with 2 show ?case by simp
qed auto

lemma replay_written:
  "EvWrite i j v \<in> set evs \<Longrightarrow> distinct (writes evs) \<Longrightarrow>
   i < length out \<Longrightarrow> j < length (out ! i) \<Longrightarrow> replay evs out ! i ! j = v"
proof (induction evs arbitrary: out rule: writes.induct)
  case (2 a b w evs)
  show ?case
  proof (cases "EvWrite i j v = EvWrite a b w")
    case True
    with 2 have "(i, j) \<notin> set (writes evs)" by auto
    then have "replay evs (apply_event (EvWrite a b w) out) ! i ! j
               = apply_event (EvWrite a b w) out ! i ! j"
      by (simp add: replay_untouched)
    with True 2 show ?thesis by simp
  next
    case False
    with 2 have mem: "EvWrite i j v \<in> set evs" and d: "distinct (writes evs)" by auto
    have sh: "map length (apply_event (EvWrite a b w) out) = map length out"
      by (rule apply_event_shape)
    have l1: "i < length (apply_event (EvWrite a b w) out)"
      using "2.prems"(3) sh by (metis length_map)
    have l2: "j < length (apply_event (EvWrite a b w) out ! i)"
      using "2.prems"(3,4) sh l1 by (metis nth_map)
    from "2.IH"[OF mem d l1 l2] show ?thesis by simp
  qed
qed auto

lemma in_range_shape:
  assumes "map length out' = map length out"
  shows "in_range out' p = in_range out p"
proof -
  have l: "length out' = length out" using assms by (metis length_map)
  have "length (out' ! a) = length (out ! a)" if "a < length out" for a
    using assms that l by (metis nth_map)
  with l show ?thesis by (auto simp: in_range_def)
qed

lemma in_range_update [simp]:
  "in_range (out[i := (out ! i)[j := v]]) p = in_range out p"
  by (rule in_range_shape) (rule map_length_update)

lemma in_range_replay [simp]: "in_range (replay evs out) p = in_range out p"
  by (rule in_range_shape) (rule replay_shape)

lemma observables_loop_calls:
  "state_of (observables_loop E i gates ps j st) = Some s \<Longrightarrow>
   \<exists>new. calls s = calls st @ new \<and> output_tensor s = replay new (output_tensor st) \<and>
     largest_nq s = largest_nq st \<and>
     (\<forall>p \<in> set (writes new). fst p = i \<and> j \<le> snd p \<and> snd p < j + length ps) \<and>
     sorted_wrt (<) (writes new) \<and> creates new = [] \<and>
     (\<forall>x \<in> set (expects new). fst x = i \<and> j \<le> fst (snd x) \<and> fst (snd x) < j + length ps) \<and>
     (\<forall>p \<in> set (writes new). in_range (output_tensor st) p) \<and>
     (expects new \<noteq> [] \<longrightarrow> gates \<noteq> []) \<and>
     (gates = [] \<longrightarrow> (\<forall>a b v. EvWrite a b v \<in> set new \<longrightarrow> v = - 2))"
proof (induction ps arbitrary: j st)
  case Nil
  then show ?case by simp
next
  case (Cons p ps)
  show ?case
  proof (cases "length gates = 0")
    case True
    with Cons.prems obtain st' where st': "store i j (- 2) st = Some st'"
      and run: "state_of (observables_loop E i gates ps (Suc j) st') = Some s"
      by (auto split: option.splits)
    from Cons.IH[OF run] obtain new where n: "calls s = calls st' @ new"
      "output_tensor s = replay new (output_tensor st')" "largest_nq s = largest_nq st'"
      "\<forall>p \<in> set (writes new). fst p = i \<and> Suc j \<le> snd p \<and> snd p < Suc j + length ps"
      "sorted_wrt (<) (writes new)" "creates new = []"
      "\<forall>x \<in> set (expects new). fst x = i \<and> Suc j \<le> fst (snd x) \<and> fst (snd x) < Suc j + length ps"
      "\<forall>p \<in> set (writes new). in_range (output_tensor st') p"
      "expects new \<noteq> [] \<longrightarrow> gates \<noteq> []"
      "gates = [] \<longrightarrow> (\<forall>a b v. EvWrite a b v \<in> set new \<longrightarrow> v = - 2)"
      by blast
    from st' have r: "in_range (output_tensor st) (i, j)" by (simp add: store_Some in_range_def)
    from st' have e: "st' = st\<lparr>output_tensor := (output_tensor st)[i := (output_tensor st ! i)[j := - 2]],
            calls := calls st @ [EvWrite i j (- 2)]\<rparr>" by (simp add: store_Some)
    have h: "\<forall>p \<in> set (writes new). (i, j) < p"
      using n(4) by (auto simp: less_prod_def)
    show ?thesis
      apply (rule exI[of _ "EvWrite i j (- 2) # new"])
      using n e h r True by auto
  next
    case False
    obtain local exp_v sv' scratch' where c: "ComputeExpectationQsim E p (sv st) (scratch st) = (local, exp_v, sv', scratch')"
      by (cases "ComputeExpectationQsim E p (sv st) (scratch st)") auto
    define st1 where "st1 = st\<lparr>sv := sv', scratch := scratch', calls := calls st @ [EvExpect i j local]\<rparr>"
    show ?thesis
    proof (cases "ok local")
      case f: False
      with Cons.prems False c have "s = st1" by (simp add: st1_def)
      then show ?thesis
        using False by (intro exI[of _ "[EvExpect i j local]"]) (simp add: st1_def)
    next
      case t: True
      with Cons.prems False c obtain st2 where st2: "store i j exp_v st1 = Some st2"
        and run: "state_of (observables_loop E i gates ps (Suc j) st2) = Some s"
        by (auto simp: st1_def split: option.splits)
      from Cons.IH[OF run] obtain new where n: "calls s = calls st2 @ new"
        "output_tensor s = replay new (output_tensor st2)" "largest_nq s = largest_nq st2"
        "\<forall>p \<in> set (writes new). fst p = i \<and> Suc j \<le> snd p \<and> snd p < Suc j + length ps"
        "sorted_wrt (<) (writes new)" "creates new = []"
        "\<forall>x \<in> set (expects new). fst x = i \<and> Suc j \<le> fst (snd x) \<and> fst (snd x) < Suc j + length ps"
        "\<forall>p \<in> set (writes new). in_range (output_tensor st2) p"
        by blast
      from st2 have r: "in_range (output_tensor st) (i, j)"
        by (simp add: store_Some in_range_def st1_def)
      from st2 have e: "st2 = st1\<lparr>output_tensor := (output_tensor st1)[i := (output_tensor st1 ! i)[j := exp_v]],
            calls := calls st1 @ [EvWrite i j exp_v]\<rparr>" by (simp add: store_Some)
      have h: "\<forall>p \<in> set (writes new). (i, j) < p"
        using n(4) by (auto simp: less_prod_def)
      show ?thesis
        apply (rule exI[of _ "EvExpect i j local # EvWrite i j exp_v # new"])
        using n e h r False by (auto simp: st1_def)
    qed
  qed
qed

lemma expects_mem: "(i, j, e) \<in> set (expects evs) \<longleftrightarrow> EvExpect i j e \<in> set evs"
  by (induction evs rule: expects.induct) auto

lemma writes_mem: "(i, j) \<in> set (writes evs) \<longleftrightarrow> (\<exists>v. EvWrite i j v \<in> set evs)"
  by (induction evs rule: writes.induct) auto

lemma creates_mem: "n \<in> set (creates evs) \<longleftrightarrow> EvCreate n \<in> set evs"
  by (induction evs rule: creates.induct) auto

lemma ok_all_simps [simp]:
  "ok_all []" "ok_all (EvWrite i j v # evs) = ok_all evs"
  "ok_all (EvExpect i j e # evs) = (ok e \<and> ok_all evs)"
  "ok_all (EvCreate n # evs) = ok_all evs"
  "ok_all (EvSetStateZero # evs) = ok_all evs"
  "ok_all (EvApply g # evs) = ok_all evs"
  by (auto simp: ok_all_def)

lemma ok_all_append [simp]: "ok_all (xs @ ys) = (ok_all xs \<and> ok_all ys)"
  by (auto simp: ok_all_def expects_append)

lemma fails_at_Cons:
  "fails_at e i j evs \<Longrightarrow> ok_all [ev] \<Longrightarrow> (\<forall>p \<in> set (writes [ev]). p < (i, j)) \<Longrightarrow>
   fails_at e i j (ev # evs)"
  unfolding fails_at_def
  apply (elim conjE exE)
  subgoal for pre
    apply (intro conjI, assumption)
    apply (rule exI[of _ "ev # pre"])
    using ok_all_append[of "[ev]" pre] writes_append[of "[ev]" pre]
    by auto
  done

lemma observables_loop_outcome:
  "state_of (observables_loop E i gates ps j st) = Some s \<Longrightarrow> calls s = calls st @ new \<Longrightarrow>
   (case observables_loop E i gates ps j st of
      Done s' \<Rightarrow> ok_all new \<and> writes new = map (Pair i) [j..<j + length ps]
    | Failed e s' \<Rightarrow> \<exists>b. j \<le> b \<and> b < j + length ps \<and> fails_at e i b new
    | Undefined \<Rightarrow> True)"
proof (induction ps arbitrary: j st new)
  case Nil
  then show ?case by simp
next
  case (Cons p ps)
  show ?case
  proof (cases "length gates = 0")
    case True
    with Cons.prems obtain st' where st': "store i j (- 2) st = Some st'"
      and run: "state_of (observables_loop E i gates ps (Suc j) st') = Some s"
      by (auto split: option.splits)
    from observables_loop_calls[OF run] obtain new' where n: "calls s = calls st' @ new'" by blast
    from st' have e: "calls st' = calls st @ [EvWrite i j (- 2)]" by (simp add: store_Some)
    from n e Cons.prems(2) have new: "new = EvWrite i j (- 2) # new'" by simp
    have eq: "observables_loop E i gates (p # ps) j st = observables_loop E i gates ps (Suc j) st'"
      using True st' by simp
    have up: "[j..<j + length (p # ps)] = j # [Suc j..<Suc j + length ps]"
      by (subst upt_rec) simp
    show ?thesis
    proof (cases "observables_loop E i gates ps (Suc j) st'")
      case (Done s')
      with Cons.IH[OF run n] show ?thesis unfolding eq new up by simp
    next
      case (Failed e' s')
      with Cons.IH[OF run n] obtain b where b: "Suc j \<le> b" "b < Suc j + length ps"
        "fails_at e' i b new'" by auto
      have "fails_at e' i b (EvWrite i j (- 2) # new')"
        using b by (intro fails_at_Cons) (auto simp: less_prod_def)
      with b Failed show ?thesis unfolding eq new by (auto intro!: exI[of _ b])
    next
      case Undefined
      then show ?thesis unfolding eq by simp
    qed
  next
    case False
    obtain local exp_v sv' scratch' where c: "ComputeExpectationQsim E p (sv st) (scratch st) = (local, exp_v, sv', scratch')"
      by (cases "ComputeExpectationQsim E p (sv st) (scratch st)") auto
    define st1 where "st1 = st\<lparr>sv := sv', scratch := scratch', calls := calls st @ [EvExpect i j local]\<rparr>"
    show ?thesis
    proof (cases "ok local")
      case f: False
      with Cons.prems False c have "s = st1" by (simp add: st1_def)
      with Cons.prems(2) have new: "new = [EvExpect i j local]" by (simp add: st1_def)
      have eq: "observables_loop E i gates (p # ps) j st = Failed local st1"
        using False c f by (simp add: st1_def)
      show ?thesis unfolding eq new using f
        by (auto simp: fails_at_def intro!: exI[of _ j])
    next
      case t: True
      with Cons.prems False c obtain st2 where st2: "store i j exp_v st1 = Some st2"
        and run: "state_of (observables_loop E i gates ps (Suc j) st2) = Some s"
        by (auto simp: st1_def split: option.splits)
      from observables_loop_calls[OF run] obtain new' where n: "calls s = calls st2 @ new'" by blast
      from st2 have e: "calls st2 = calls st @ [EvExpect i j local, EvWrite i j exp_v]"
        by (simp add: store_Some st1_def)
      from n e Cons.prems(2) have new: "new = EvExpect i j local # EvWrite i j exp_v # new'" by simp
      have eq: "observables_loop E i gates (p # ps) j st = observables_loop E i gates ps (Suc j) st2"
        using False c t st2 by (simp add: st1_def)
      have up: "[j..<j + length (p # ps)] = j # [Suc j..<Suc j + length ps]"
        by (subst upt_rec) simp
      show ?thesis
      proof (cases "observables_loop E i gates ps (Suc j) st2")
        case (Done s')
        with Cons.IH[OF run n] t show ?thesis unfolding eq new up by simp
      next
        case (Failed e' s')
        with Cons.IH[OF run n] obtain b where b: "Suc j \<le> b" "b < Suc j + length ps"
          "fails_at e' i b new'" by auto
        have w: "fails_at e' i b (EvWrite i j exp_v # new')"
          using b by (intro fails_at_Cons) (auto simp: less_prod_def)
        have "fails_at e' i b (EvExpect i j local # EvWrite i j exp_v # new')"
          by (rule fails_at_Cons[OF w]) (use t in auto)
        with b Failed show ?thesis unfolding eq new by (auto intro!: exI[of _ b])
      next
        case Undefined
        then show ?thesis unfolding eq by simp
      qed
    qed
  qed
qed

lemma fails_at_append:
  "fails_at e i j evs \<Longrightarrow> ok_all pre \<Longrightarrow> (\<forall>p \<in> set (writes pre). p < (i, j)) \<Longrightarrow>
   fails_at e i j (pre @ evs)"
  unfolding fails_at_def
  apply (elim conjE exE)
  subgoal for pre'
    apply (intro conjI, assumption)
    apply (rule exI[of _ "pre @ pre'"])
    by (auto simp: writes_append)
  done

lemma apply_gates_state:
  "calls (apply_gates E gs st) = calls st @ map EvApply gs \<and>
   sv (apply_gates E gs st) = fold (ApplyFusedGate E) gs (sv st) \<and>
   scratch (apply_gates E gs st) = scratch st \<and>
   output_tensor (apply_gates E gs st) = output_tensor st \<and>
   largest_nq (apply_gates E gs st) = largest_nq st"
  by (induction gs arbitrary: st) auto

lemma writes_map_EvApply [simp]: "writes (map EvApply gs) = []"
  by (induction gs) auto

lemma expects_map_EvApply [simp]: "expects (map EvApply gs) = []"
  by (induction gs) auto

lemma creates_map_EvApply [simp]: "creates (map EvApply gs) = []"
  by (induction gs) auto

lemma replay_no_writes: "writes evs = [] \<Longrightarrow> replay evs out = out"
  by (induction evs arbitrary: out rule: writes.induct) auto

lemma prelude_facts [simp]:
  "writes (prelude cap nq gates) = []" "expects (prelude cap nq gates) = []"
  "creates (prelude cap nq gates) = (if nq > cap then [nq, nq] else [])"
  "ok_all (prelude cap nq gates)"
  by (auto simp: prelude_def writes_append expects_append creates_append ok_all_def)

lemma prelude_no_write [simp]: "EvWrite a b v \<notin> set (prelude c nq gs)"
  by (auto simp: prelude_def)

lemma prelude_state:
  "calls (apply_gates E gates (set_zero E (grow E nq st))) = calls st @ prelude (largest_nq st) nq gates"
  "output_tensor (apply_gates E gates (set_zero E (grow E nq st))) = output_tensor st"
  "largest_nq (apply_gates E gates (set_zero E (grow E nq st))) = max (largest_nq st) nq"
  "sv (apply_gates E gates (set_zero E (grow E nq st))) =
     fold (ApplyFusedGate E) gates (SetStateZero E (if nq > largest_nq st then Create E nq else sv st))"
  "scratch (apply_gates E gates (set_zero E (grow E nq st))) =
     (if nq > largest_nq st then Create E nq else scratch st)"
  by (auto simp: apply_gates_state set_zero_def grow_def prelude_def)

lemma simulate_circuit_calls:
  assumes "state_of (simulate_circuit E i nq gates ps st) = Some s"
  shows "\<exists>new. calls s = calls st @ new \<and> output_tensor s = replay new (output_tensor st) \<and>
     largest_nq s = max (largest_nq st) nq \<and>
     (\<forall>p \<in> set (writes new). fst p = i) \<and> sorted_wrt (<) (writes new) \<and>
     creates new = (if nq > largest_nq st then [nq, nq] else []) \<and>
     (\<forall>x \<in> set (expects new). fst x = i) \<and>
     (\<forall>p \<in> set (writes new). in_range (output_tensor st) p) \<and>
     (expects new \<noteq> [] \<longrightarrow> gates \<noteq> []) \<and>
     (gates = [] \<longrightarrow> (\<forall>a b v. EvWrite a b v \<in> set new \<longrightarrow> v = - 2))"
proof -
  let ?st0 = "apply_gates E gates (set_zero E (grow E nq st))"
  from assms have "state_of (observables_loop E i gates ps 0 ?st0) = Some s"
    by (simp add: simulate_circuit_def)
  from observables_loop_calls[OF this] obtain new where n: "calls s = calls ?st0 @ new"
    "output_tensor s = replay new (output_tensor ?st0)" "largest_nq s = largest_nq ?st0"
    "\<forall>p \<in> set (writes new). fst p = i \<and> 0 \<le> snd p \<and> snd p < 0 + length ps"
    "sorted_wrt (<) (writes new)" "creates new = []"
    "\<forall>x \<in> set (expects new). fst x = i \<and> 0 \<le> fst (snd x) \<and> fst (snd x) < 0 + length ps"
    "\<forall>p \<in> set (writes new). in_range (output_tensor ?st0) p"
    "expects new \<noteq> [] \<longrightarrow> gates \<noteq> []"
    "gates = [] \<longrightarrow> (\<forall>a b v. EvWrite a b v \<in> set new \<longrightarrow> v = - 2)"
    by blast
  show ?thesis
    apply (rule exI[of _ "prelude (largest_nq st) nq gates @ new"])
    using n
    by (simp add: prelude_state replay_append replay_no_writes writes_append creates_append
        expects_append)
qed

lemma simulate_circuit_outcome:
  assumes "state_of (simulate_circuit E i nq gates ps st) = Some s" "calls s = calls st @ new"
  shows "case simulate_circuit E i nq gates ps st of
      Done s' \<Rightarrow> ok_all new \<and> writes new = map (Pair i) [0..<length ps]
    | Failed e s' \<Rightarrow> \<exists>b < length ps. fails_at e i b new
    | Undefined \<Rightarrow> True"
proof -
  let ?st0 = "apply_gates E gates (set_zero E (grow E nq st))"
  from assms have run: "state_of (observables_loop E i gates ps 0 ?st0) = Some s"
    by (simp add: simulate_circuit_def)
  from observables_loop_calls[OF this] obtain new' where n: "calls s = calls ?st0 @ new'"
    by blast
  with assms(2) have new: "new = prelude (largest_nq st) nq gates @ new'"
    by (simp add: prelude_state)
  from observables_loop_outcome[OF run n] show ?thesis
    unfolding new simulate_circuit_def
    by (auto split: outcome.splits simp: writes_append intro!: fails_at_append)
qed

lemma circuits_loop_calls:
  "state_of (circuits_loop E nqs pss k fcs st) = Some s \<Longrightarrow>
   \<exists>new. calls s = calls st @ new \<and> output_tensor s = replay new (output_tensor st) \<and>
     largest_nq st \<le> largest_nq s \<and>
     (\<forall>p \<in> set (writes new). k \<le> fst p \<and> fst p < k + length fcs) \<and>
     sorted_wrt (<) (writes new) \<and>
     (\<forall>x \<in> set (expects new). k \<le> fst x \<and> fst x < k + length fcs) \<and>
     sorted (creates new) \<and> (\<forall>n \<in> set (creates new). largest_nq st < n \<and> n \<le> largest_nq s) \<and>
     (\<forall>p \<in> set (writes new). in_range (output_tensor st) p)"
proof (induction fcs arbitrary: k st)
  case Nil
  then show ?case by simp
next
  case (Cons gates fcs)
  from Cons.prems have rng: "k < length nqs" "k < length pss"
    by (auto split: if_splits)
  let ?r = "simulate_circuit E k (nqs ! k) gates (pss ! k) st"
  from Cons.prems rng obtain st' where st': "state_of ?r = Some st'"
    by (cases ?r) auto
  from simulate_circuit_calls[OF st'] obtain n1 where n1: "calls st' = calls st @ n1"
    "output_tensor st' = replay n1 (output_tensor st)"
    "largest_nq st' = max (largest_nq st) (nqs ! k)"
    "\<forall>p \<in> set (writes n1). fst p = k" "sorted_wrt (<) (writes n1)"
    "creates n1 = (if nqs ! k > largest_nq st then [nqs ! k, nqs ! k] else [])"
    "\<forall>x \<in> set (expects n1). fst x = k"
    "\<forall>p \<in> set (writes n1). in_range (output_tensor st) p"
    by blast
  show ?case
  proof (cases ?r)
    case (Done x)
    with st' have x: "x = st'" by simp
    with Done Cons.prems rng have run: "state_of (circuits_loop E nqs pss (Suc k) fcs st') = Some s"
      by simp
    from Cons.IH[OF run] obtain n2 where n2: "calls s = calls st' @ n2"
      "output_tensor s = replay n2 (output_tensor st')" "largest_nq st' \<le> largest_nq s"
      "\<forall>p \<in> set (writes n2). Suc k \<le> fst p \<and> fst p < Suc k + length fcs"
      "sorted_wrt (<) (writes n2)"
      "\<forall>x \<in> set (expects n2). Suc k \<le> fst x \<and> fst x < Suc k + length fcs"
      "sorted (creates n2)" "\<forall>n \<in> set (creates n2). largest_nq st' < n \<and> n \<le> largest_nq s"
      "\<forall>p \<in> set (writes n2). in_range (output_tensor st') p"
      by blast
    have w: "\<forall>p \<in> set (writes n1). \<forall>q \<in> set (writes n2). p < q"
      using n1(4) n2(4) by (auto simp: less_prod_def)
    show ?thesis
      apply (rule exI[of _ "n1 @ n2"])
      using n1 n2 w
      by (auto simp: replay_append writes_append expects_append creates_append
          sorted_wrt_append sorted_append)
  next
    case (Failed e x)
    with st' Cons.prems rng have "s = st'" by simp
    then show ?thesis
      apply (intro exI[of _ n1])
      using n1 by auto
  next
    case Undefined
    with st' show ?thesis by simp
  qed
qed

lemma circuits_loop_outcome:
  "state_of (circuits_loop E nqs pss k fcs st) = Some s \<Longrightarrow> calls s = calls st @ new \<Longrightarrow>
   (case circuits_loop E nqs pss k fcs st of
      Done s' \<Rightarrow> ok_all new \<and>
        largest_nq s = fold max (take (length fcs) (drop k nqs)) (largest_nq st)
    | Failed e s' \<Rightarrow> \<exists>i b. k \<le> i \<and> i < k + length fcs \<and> fails_at e i b new
    | Undefined \<Rightarrow> True)"
proof (induction fcs arbitrary: k st new)
  case Nil
  then show ?case by simp
next
  case (Cons gates fcs)
  from Cons.prems have rng: "k < length nqs" "k < length pss"
    by (auto split: if_splits)
  let ?r = "simulate_circuit E k (nqs ! k) gates (pss ! k) st"
  from Cons.prems rng obtain st' where st': "state_of ?r = Some st'"
    by (cases ?r) auto
  from simulate_circuit_calls[OF st'] obtain n1 where n1: "calls st' = calls st @ n1"
    "largest_nq st' = max (largest_nq st) (nqs ! k)"
    "\<forall>p \<in> set (writes n1). fst p = k"
    by blast
  note o1 = simulate_circuit_outcome[OF st' n1(1)]
  have dr: "take (length (gates # fcs)) (drop k nqs) = nqs ! k # take (length fcs) (drop (Suc k) nqs)"
    using rng by (simp add: Cons_nth_drop_Suc[symmetric])
  show ?case
  proof (cases ?r)
    case (Done x)
    with st' have x: "x = st'" by simp
    with Done Cons.prems rng have run: "state_of (circuits_loop E nqs pss (Suc k) fcs st') = Some s"
      and eq: "circuits_loop E nqs pss k (gates # fcs) st = circuits_loop E nqs pss (Suc k) fcs st'"
      by simp_all
    from circuits_loop_calls[OF run] obtain n2 where n2: "calls s = calls st' @ n2" by blast
    with n1 Cons.prems(2) have new: "new = n1 @ n2" by simp
    from o1 Done have ok1: "ok_all n1" by simp
    have lt: "\<forall>p \<in> set (writes n1). p < (i, b)" if "Suc k \<le> i" for i b
      using n1(3) that by (auto simp: less_prod_def)
    show ?thesis
    proof (cases "circuits_loop E nqs pss (Suc k) fcs st'")
      case d: (Done s')
      with Cons.IH[OF run n2] ok1 n1(2) show ?thesis
        unfolding eq new dr by (simp add: max.commute)
    next
      case f: (Failed e s')
      with Cons.IH[OF run n2] obtain i b where ib: "Suc k \<le> i" "i < Suc k + length fcs"
        "fails_at e i b n2" by auto
      have "fails_at e i b (n1 @ n2)"
        by (rule fails_at_append[OF ib(3) ok1 lt[OF ib(1)]])
      with ib have "\<exists>i b. k \<le> i \<and> i < k + length (gates # fcs) \<and> fails_at e i b (n1 @ n2)"
        by (intro exI[of _ i] exI[of _ b]) simp
      with f show ?thesis unfolding eq new by simp
    next
      case Undefined
      then show ?thesis unfolding eq by simp
    qed
  next
    case (Failed e x)
    with st' Cons.prems rng have s: "s = st'" by simp
    with n1 Cons.prems(2) have new: "new = n1" by simp
    from Failed rng have eq: "circuits_loop E nqs pss k (gates # fcs) st = Failed e x" by simp
    from o1 Failed obtain b where "fails_at e k b n1" by auto
    then have "\<exists>i b. k \<le> i \<and> i < k + length (gates # fcs) \<and> fails_at e i b n1"
      by (intro exI[of _ k] exI[of _ b]) simp
    then show ?thesis unfolding eq new by simp
  next
    case Undefined
    with st' show ?thesis by simp
  qed
qed

lemma last_event_unique:
  assumes "xs @ [a] = pre @ b # post" "b \<notin> set xs"
  shows "post = [] \<and> pre = xs \<and> a = b"
proof (cases post rule: rev_cases)
  case Nil
  with assms(1) show ?thesis by simp
next
  case (snoc ys y)
  with assms(1) have "xs = pre @ b # ys" by simp
  with assms(2) show ?thesis by simp
qed

lemma run_facts:
  assumes "state_of (ComputeLarge E nqs fcs pss out) = Some s"
  obtains new where "calls s = [EvCreate 1, EvCreate 1] @ new"
    "output_tensor s = replay new out" "sorted_wrt (<) (writes new)"
    "\<forall>p \<in> set (writes new). in_range out p \<and> fst p < length fcs"
    "\<forall>x \<in> set (expects new). fst x < length fcs"
    "sorted (creates new)" "\<forall>n \<in> set (creates new). 1 < n \<and> n \<le> largest_nq s"
    "1 \<le> largest_nq s"
    "case ComputeLarge E nqs fcs pss out of
       Done s' \<Rightarrow> ok_all new \<and> largest_nq s = fold max (take (length fcs) nqs) 1
     | Failed e s' \<Rightarrow> \<exists>i b. i < length fcs \<and> fails_at e i b new
     | Undefined \<Rightarrow> True"
proof -
  let ?st = "initial_state E out"
  from assms have run: "state_of (circuits_loop E nqs pss 0 fcs ?st) = Some s"
    by (simp add: ComputeLarge_def)
  from circuits_loop_calls[OF run] obtain new where n: "calls s = calls ?st @ new"
    "output_tensor s = replay new (output_tensor ?st)" "largest_nq ?st \<le> largest_nq s"
    "\<forall>p \<in> set (writes new). 0 \<le> fst p \<and> fst p < 0 + length fcs"
    "sorted_wrt (<) (writes new)"
    "\<forall>x \<in> set (expects new). 0 \<le> fst x \<and> fst x < 0 + length fcs"
    "sorted (creates new)" "\<forall>n \<in> set (creates new). largest_nq ?st < n \<and> n \<le> largest_nq s"
    "\<forall>p \<in> set (writes new). in_range (output_tensor ?st) p"
    by blast
  note o = circuits_loop_outcome[OF run n(1)]
  show thesis
    apply (rule that[of new])
    using n o by (auto simp: initial_state_def ComputeLarge_def split: outcome.splits)
qed

section \<open>Evaluating the worked examples\<close>

lemma to_int32_id: "0 \<le> x \<Longrightarrow> x < 2 ^ 31 \<Longrightarrow> to_int32 x = x"
  unfolding to_int32_def sint_sbintrunc'
  by (rule signed_take_bit_int_eq_self) simp_all

lemmas run_simps = ComputeLarge_def initial_state_def simulate_circuit_def grow_def set_zero_def
  store_def write_cell_def demo_engine_def

lemmas kernel_simps = Compute_def Let_def dim_size_def to_int32_id allocate_output_def
  GetProgramsAndNumQubits_def demo_collaborators_def demo_context_def demo_rows_def
  construct_body_def NESTED_FN_STATUS_SYNC_def after_barrier_def upt_rec

section \<open>Failure of the expectation primitive\<close>

text \<open>
  Claim C7. If the expectation primitive reports an error for any term of any circuit,
  the invocation fails at once with that status: the failed call is the last thing the
  run does (no later observable, no later circuit), and every cell stored before it
  holds the value that was stored.
\<close>

theorem expectation_error_aborts:
  assumes "state_of (ComputeLarge E nqs fcs pss out) = Some s"
    and "calls s = pre @ EvExpect i j e # post" and "\<not> ok e"
  shows "ComputeLarge E nqs fcs pss out = Failed e s \<and> post = [] \<and>
         (\<forall>i' j' v. EvWrite i' j' v \<in> set pre \<longrightarrow> output_tensor s ! i' ! j' = v)"
proof -
  from assms(1) obtain new where n: "calls s = [EvCreate 1, EvCreate 1] @ new"
    "output_tensor s = replay new out" "sorted_wrt (<) (writes new)"
    "\<forall>p \<in> set (writes new). in_range out p \<and> fst p < length fcs"
    and o: "case ComputeLarge E nqs fcs pss out of
       Done s' \<Rightarrow> ok_all new \<and> largest_nq s = fold max (take (length fcs) nqs) 1
     | Failed e s' \<Rightarrow> \<exists>i b. i < length fcs \<and> fails_at e i b new
     | Undefined \<Rightarrow> True"
    by (rule run_facts)
  from assms(2) n(1) have mem: "EvExpect i j e \<in> set new"
    by (metis append_Cons append_Nil event.distinct(5) in_set_conv_decomp set_ConsD)
  show ?thesis
  proof (cases "ComputeLarge E nqs fcs pss out")
    case (Done s')
    with o have "ok_all new" by simp
    with mem assms(3) show ?thesis by (auto simp: ok_all_def expects_mem[symmetric])
  next
    case (Failed e' s')
    with assms(1) have s': "s' = s" by simp
    from o Failed obtain i' b pre' where f: "new = pre' @ [EvExpect i' b e']" "ok_all pre'"
      by (auto simp: fails_at_def)
    have notin: "EvExpect i j e \<notin> set ([EvCreate 1, EvCreate 1] @ pre')"
      using f(2) assms(3) by (auto simp: ok_all_def expects_mem[symmetric])
    have "([EvCreate 1, EvCreate 1] @ pre') @ [EvExpect i' b e'] = pre @ EvExpect i j e # post"
      using n(1) f(1) assms(2) by simp
    from last_event_unique[OF this notin]
    have p: "post = []" "pre = [EvCreate 1, EvCreate 1] @ pre'" "e' = e" by simp_all
    have d: "distinct (writes new)" using n(3) by (simp add: strict_sorted_iff)
    have "output_tensor s ! a ! b' = v" if "EvWrite a b' v \<in> set pre" for a b' v
    proof -
      from that p(2) f(1) have m: "EvWrite a b' v \<in> set new" by auto
      then have "(a, b') \<in> set (writes new)" by (auto simp: writes_mem)
      with n(4) have "a < length out" "b' < length (out ! a)" by (auto simp: in_range_def)
      from replay_written[OF m d this] n(2) show ?thesis by simp
    qed
    with Failed s' p show ?thesis by simp
  next
    case Undefined
    with assms(1) show ?thesis by simp
  qed
qed

theorem expectation_error_aborts_witness:
  "ComputeLarge demo_engine [1, 2] [[1], [2]] [[3, - 1, 4], [5, 6, 7]] [[9, 9, 9], [9, 9, 9]] =
     Failed (Error (OTHER_CODE 3) ''term'')
       \<lparr>largest_nq = 1, sv = (1, 1), scratch = (1, 1),
        output_tensor = [[3, 9, 9], [9, 9, 9]],
        calls = [EvCreate 1, EvCreate 1, EvSetStateZero, EvApply 1, EvExpect 0 0 OK,
                 EvWrite 0 0 3, EvExpect 0 1 (Error (OTHER_CODE 3) ''term'')]\<rparr> \<and>
   \<not> ok (Error (OTHER_CODE 3) ''term'') \<and>
   [[3, 9, 9], [9, 9, 9]] ! 0 ! 0 = (3 :: real)"
proof -
  let ?s = "\<lparr>largest_nq = 1, sv = (1 :: int, 1 :: int), scratch = (1 :: int, 1 :: int),
        output_tensor = [[3, 9, 9], [9, 9, 9]],
        calls = [EvCreate 1, EvCreate 1, EvSetStateZero, EvApply (1 :: int), EvExpect 0 0 OK,
                 EvWrite 0 0 3, EvExpect 0 1 (Error (OTHER_CODE 3) ''term'')]\<rparr>"
  have run: "ComputeLarge demo_engine [1, 2] [[1], [2]] [[3, - 1, 4], [5, 6, 7]]
      [[9, 9, 9], [9, 9, 9]] = Failed (Error (OTHER_CODE 3) ''term'') ?s"
    by (simp add: ComputeLarge_def initial_state_def simulate_circuit_def grow_def set_zero_def
        store_def write_cell_def demo_engine_def)
  have h1: "state_of (ComputeLarge demo_engine [1, 2] [[1], [2]] [[3, - 1, 4], [5, 6, 7]]
      [[9, 9, 9], [9, 9, 9]]) = Some ?s"
    by (simp add: run)
  have h2: "calls ?s = [EvCreate 1, EvCreate 1, EvSetStateZero, EvApply 1, EvExpect 0 0 OK,
      EvWrite 0 0 3] @ EvExpect 0 1 (Error (OTHER_CODE 3) ''term'') # []"
    by simp
  have h3: "\<not> ok (Error (OTHER_CODE 3) ''term'')" by simp
  from expectation_error_aborts[OF h1 h2 h3] show ?thesis by simp
qed

lemma replay_two_creates [simp]: "replay (EvCreate a # EvCreate b # evs) out = replay evs out"
  by simp

section \<open>What an abort leaves in the output tensor\<close>

text \<open>
  Claim C10. When the expectation primitive fails for circuit \<open>i\<close>, observable \<open>j\<close>, the
  abort changes no cell of the output tensor: the tensor is what the stores made before
  the failed call left. Cell \<open>(i, j)\<close> is never stored to; it and every later cell (in
  row-major order) still hold what the tensor was allocated with; every cell stored to
  earlier lies before \<open>(i, j)\<close> and holds the value stored.
\<close>

theorem abort_leaves_output:
  assumes "ComputeLarge E nqs fcs pss out = Failed e s"
    and "calls s = pre @ [EvExpect i j e]"
  shows "output_tensor s = replay pre out \<and>
         (\<forall>v. EvWrite i j v \<notin> set (calls s)) \<and>
         (\<forall>i' j'. (i, j) \<le> (i', j') \<longrightarrow> output_tensor s ! i' ! j' = out ! i' ! j') \<and>
         (\<forall>i' j' v. EvWrite i' j' v \<in> set pre \<longrightarrow>
            (i', j') < (i, j) \<and> output_tensor s ! i' ! j' = v)"
proof -
  from assms(1) have st: "state_of (ComputeLarge E nqs fcs pss out) = Some s" by simp
  from st obtain new where n: "calls s = [EvCreate 1, EvCreate 1] @ new"
    "output_tensor s = replay new out" "sorted_wrt (<) (writes new)"
    "\<forall>p \<in> set (writes new). in_range out p \<and> fst p < length fcs"
    and o: "case ComputeLarge E nqs fcs pss out of
       Done s' \<Rightarrow> ok_all new \<and> largest_nq s = fold max (take (length fcs) nqs) 1
     | Failed e s' \<Rightarrow> \<exists>i b. i < length fcs \<and> fails_at e i b new
     | Undefined \<Rightarrow> True"
    by (rule run_facts)
  from o assms(1) obtain i' b pre' where f: "new = pre' @ [EvExpect i' b e]"
    "\<forall>p \<in> set (writes pre'). p < (i', b)"
    by (auto simp: fails_at_def)
  from n(1) f(1) assms(2) have p: "pre = [EvCreate 1, EvCreate 1] @ pre'" "i' = i" "b = j"
    by simp_all
  have w: "writes new = writes pre'" using f(1) by (simp add: writes_append)
  have r: "output_tensor s = replay pre' out"
    using n(2) f(1) by (simp add: replay_append)
  have d: "distinct (writes new)" using n(3) by (simp add: strict_sorted_iff)
  have a: "output_tensor s = replay pre out" using r p(1) by simp
  have b: "EvWrite i j v \<notin> set (calls s)" for v
  proof
    assume "EvWrite i j v \<in> set (calls s)"
    with n(1) f(1) have "EvWrite i j v \<in> set pre'" by auto
    then have "(i, j) \<in> set (writes pre')" by (auto simp: writes_mem)
    with f(2) p show False by auto
  qed
  have c: "output_tensor s ! a' ! b' = out ! a' ! b'" if "(i, j) \<le> (a', b')" for a' b'
  proof -
    have "(a', b') \<notin> set (writes pre')"
    proof
      assume "(a', b') \<in> set (writes pre')"
      with f(2) p have "(a', b') < (i, j)" by auto
      with that show False by auto
    qed
    then show ?thesis unfolding r by (rule replay_untouched)
  qed
  have e: "(a', b') < (i, j) \<and> output_tensor s ! a' ! b' = v" if "EvWrite a' b' v \<in> set pre"
    for a' b' v
  proof -
    from that p(1) have m': "EvWrite a' b' v \<in> set pre'" by auto
    then have m: "EvWrite a' b' v \<in> set new" using f(1) by simp
    from m' have wm: "(a', b') \<in> set (writes pre')" by (auto simp: writes_mem)
    with f(2) p have lt: "(a', b') < (i, j)" by auto
    from wm w n(4) have "a' < length out" "b' < length (out ! a')" by (auto simp: in_range_def)
    from replay_written[OF m d this] n(2) lt show ?thesis by simp
  qed
  from a b c e show ?thesis by blast
qed

theorem abort_leaves_output_witness:
  "ComputeLarge demo_engine [2, 1] [[1], [2, 3]] [[3, 4], [5, - 6]] [[9, 9], [8, 8]] =
     Failed (Error (OTHER_CODE 3) ''term'')
       \<lparr>largest_nq = 2, sv = (2, 5), scratch = (2, 5),
        output_tensor = [[3, 4], [25, 8]],
        calls = [EvCreate 1, EvCreate 1, EvCreate 2, EvCreate 2, EvSetStateZero, EvApply 1,
                 EvExpect 0 0 OK, EvWrite 0 0 3, EvExpect 0 1 OK, EvWrite 0 1 4,
                 EvSetStateZero, EvApply 2, EvApply 3, EvExpect 1 0 OK, EvWrite 1 0 25,
                 EvExpect 1 1 (Error (OTHER_CODE 3) ''term'')]\<rparr> \<and>
   [[3, 4], [25, 8]] ! 1 ! 1 = [[9, 9], [8, 8 :: real]] ! 1 ! 1 \<and>
   ((1 :: nat, 0 :: nat) < (1, 1) \<and> [[3, 4], [25, 8]] ! 1 ! 0 = (25 :: real))"
proof -
  let ?pre = "[EvCreate 1, EvCreate 1, EvCreate 2, EvCreate 2, EvSetStateZero, EvApply (1 :: int),
                 EvExpect 0 0 OK, EvWrite 0 0 3, EvExpect 0 1 OK, EvWrite 0 1 4,
                 EvSetStateZero, EvApply 2, EvApply 3, EvExpect 1 0 OK, EvWrite 1 0 25]"
  let ?s = "\<lparr>largest_nq = 2, sv = (2 :: int, 5 :: int), scratch = (2 :: int, 5 :: int),
        output_tensor = [[3, 4], [25, 8]],
        calls = ?pre @ [EvExpect 1 1 (Error (OTHER_CODE 3) ''term'')]\<rparr>"
  have run: "ComputeLarge demo_engine [2, 1] [[1], [2, 3]] [[3, 4], [5, - 6]] [[9, 9], [8, 8]] =
     Failed (Error (OTHER_CODE 3) ''term'') ?s"
    by (simp add: run_simps)
  have h2: "calls ?s = ?pre @ [EvExpect 1 1 (Error (OTHER_CODE 3) ''term'')]" by simp
  from abort_leaves_output[OF run h2] show ?thesis using run by simp
qed

section \<open>The capacity of the shared buffers\<close>




section \<open>Circuits without gates\<close>

lemma observables_loop_empty:
  "state_of (observables_loop E i [] ps j st) = Some s \<Longrightarrow>
   observables_loop E i [] ps j st = Done s \<and>
   calls s = calls st @ map (\<lambda>b. EvWrite i b (- 2)) [j..<j + length ps] \<and>
   sv s = sv st \<and> scratch s = scratch st \<and> largest_nq s = largest_nq st"
proof (induction ps arbitrary: j st)
  case Nil
  then show ?case by simp
next
  case (Cons p ps)
  from Cons.prems obtain st' where st': "store i j (- 2) st = Some st'"
    and run: "state_of (observables_loop E i [] ps (Suc j) st') = Some s"
    by (auto split: option.splits)
  have up: "[j..<j + length (p # ps)] = j # [Suc j..<Suc j + length ps]"
    by (subst upt_rec) simp
  from st' have e: "calls st' = calls st @ [EvWrite i j (- 2)]" "sv st' = sv st"
    "scratch st' = scratch st" "largest_nq st' = largest_nq st"
    by (simp_all add: store_Some)
  from Cons.IH[OF run] st' e show ?case unfolding up by simp
qed

text \<open>
  Claim C9. The body of the loop treats a circuit without gates like any other up to the
  observables: when its qubit count exceeds the capacity both buffers are allocated anew
  at that count, then the state buffer is reset, and only then is the sentinel stored
  for each observable; the capacity becomes the larger of its old value and the count.
  Hence a run that reaches its end leaves the capacity at the maximum of 1 and every
  qubit count of the batch.
\<close>

theorem empty_circuit_drives_manager:
  "(state_of (simulate_circuit E i nq [] ps st) = Some s \<longrightarrow>
      simulate_circuit E i nq [] ps st = Done s \<and>
      calls s = calls st @ (if nq > largest_nq st then [EvCreate nq, EvCreate nq] else []) @
                EvSetStateZero # map (\<lambda>j. EvWrite i j (- 2)) [0..<length ps] \<and>
      largest_nq s = max (largest_nq st) nq \<and>
      sv s = SetStateZero E (if nq > largest_nq st then Create E nq else sv st) \<and>
      scratch s = (if nq > largest_nq st then Create E nq else scratch st)) \<and>
   (ComputeLarge E nqs fcs pss out = Done s' \<and> length nqs = length fcs \<longrightarrow>
      largest_nq s' = Max (insert 1 (set nqs)))"
proof (intro conjI impI)
  let ?st0 = "apply_gates E [] (set_zero E (grow E nq st))"
  assume "state_of (simulate_circuit E i nq [] ps st) = Some s"
  then have "state_of (observables_loop E i [] ps 0 ?st0) = Some s"
    by (simp add: simulate_circuit_def)
  from observables_loop_empty[OF this]
  have f: "observables_loop E i [] ps 0 ?st0 = Done s"
    "calls s = calls ?st0 @ map (\<lambda>b. EvWrite i b (- 2)) [0..<0 + length ps]"
    "sv s = sv ?st0" "scratch s = scratch ?st0" "largest_nq s = largest_nq ?st0"
    by simp_all
  show "simulate_circuit E i nq [] ps st = Done s"
    using f(1) by (simp add: simulate_circuit_def)
  show "calls s = calls st @ (if nq > largest_nq st then [EvCreate nq, EvCreate nq] else []) @
                EvSetStateZero # map (\<lambda>j. EvWrite i j (- 2)) [0..<length ps]"
    using f(2) unfolding prelude_state by (simp add: prelude_def)
  show "largest_nq s = max (largest_nq st) nq"
    using f(5) unfolding prelude_state .
  show "sv s = SetStateZero E (if nq > largest_nq st then Create E nq else sv st)"
    using f(3) unfolding prelude_state by simp
  show "scratch s = (if nq > largest_nq st then Create E nq else scratch st)"
    using f(4) unfolding prelude_state .
next
  assume a: "ComputeLarge E nqs fcs pss out = Done s' \<and> length nqs = length fcs"
  then have "state_of (ComputeLarge E nqs fcs pss out) = Some s'" by simp
  then obtain new where "calls s' = [EvCreate 1, EvCreate 1] @ new"
     "case ComputeLarge E nqs fcs pss out of
       Done s'' \<Rightarrow> ok_all new \<and> largest_nq s' = fold max (take (length fcs) nqs) 1
     | Failed e s'' \<Rightarrow> \<exists>i b. i < length fcs \<and> fails_at e i b new
     | Undefined \<Rightarrow> True"
    by (rule run_facts)
  with a have "largest_nq s' = fold max nqs 1" by simp
  also have "\<dots> = Max (set (1 # nqs))" by (simp only: Max.set_eq_fold)
  finally show "largest_nq s' = Max (insert 1 (set nqs))" by simp
qed

theorem empty_circuit_drives_manager_witness:
  "simulate_circuit demo_engine 1 3 [] [4, 5] (initial_state demo_engine [[9, 9], [9, 9], [9, 9]]) =
     Done \<lparr>largest_nq = 3, sv = (3, 0), scratch = (3, 7),
           output_tensor = [[9, 9], [- 2, - 2], [9, 9]],
           calls = [EvCreate 1, EvCreate 1, EvCreate 3, EvCreate 3, EvSetStateZero,
                    EvWrite 1 0 (- 2), EvWrite 1 1 (- 2)]\<rparr> \<and>
   ComputeLarge demo_engine [2, 4, 3] [[1], [], [2]] [[3], [4], [5]] [[9], [9], [9]] =
     Done \<lparr>largest_nq = 4, sv = (4, 2), scratch = (4, 2), output_tensor = [[3], [- 2], [10]],
           calls = [EvCreate 1, EvCreate 1, EvCreate 2, EvCreate 2, EvSetStateZero, EvApply 1,
                    EvExpect 0 0 OK, EvWrite 0 0 3, EvCreate 4, EvCreate 4, EvSetStateZero,
                    EvWrite 1 0 (- 2), EvSetStateZero, EvApply 2, EvExpect 2 0 OK,
                    EvWrite 2 0 10]\<rparr> \<and>
   (4 :: int) = Max (insert 1 (set [2, 4, 3]))"
proof -
  let ?st = "initial_state demo_engine [[9, 9], [9, 9], [9, 9]]"
  let ?s = "\<lparr>largest_nq = 3, sv = (3 :: int, 0 :: int), scratch = (3 :: int, 7 :: int),
           output_tensor = [[9, 9], [- 2, - 2], [9, 9]],
           calls = [EvCreate 1, EvCreate 1, EvCreate 3, EvCreate 3, EvSetStateZero,
                    EvWrite 1 0 (- 2), EvWrite 1 1 (- 2) :: int event]\<rparr>"
  let ?t = "\<lparr>largest_nq = 4, sv = (4 :: int, 2 :: int), scratch = (4 :: int, 2 :: int),
           output_tensor = [[3], [- 2], [10]],
           calls = [EvCreate 1, EvCreate 1, EvCreate 2, EvCreate 2, EvSetStateZero,
                    EvApply (1 :: int),
                    EvExpect 0 0 OK, EvWrite 0 0 3, EvCreate 4, EvCreate 4, EvSetStateZero,
                    EvWrite 1 0 (- 2), EvSetStateZero, EvApply 2, EvExpect 2 0 OK,
                    EvWrite 2 0 10]\<rparr>"
  have h1: "state_of (simulate_circuit demo_engine 1 3 [] [4, 5] ?st) = Some ?s"
    by (simp add: run_simps)
  have h2: "ComputeLarge demo_engine [2, 4, 3] [[1], [], [2]] [[3], [4], [5]] [[9], [9], [9]] =
      Done ?t"
    by (simp add: run_simps)
  from empty_circuit_drives_manager[of demo_engine 1 3 "[4, 5]" ?st ?s "[2, 4, 3]"
      "[[1], [], [2]]" "[[3], [4], [5]]" "[[9], [9], [9]]" ?t] h1 h2
  show ?thesis by simp
qed

lemma circuits_loop_events:
  "state_of (circuits_loop E nqs pss k fcs st) = Some s \<Longrightarrow> calls s = calls st @ new \<Longrightarrow>
   (\<forall>x \<in> set (expects new). fcs ! (fst x - k) \<noteq> []) \<and>
   (\<forall>a b v. EvWrite a b v \<in> set new \<longrightarrow> fcs ! (a - k) = [] \<longrightarrow> v = - 2) \<and>
   (circuits_loop E nqs pss k fcs st = Done s \<longrightarrow>
      writes new = concat (map (\<lambda>a. map (Pair a) [0..<length (pss ! a)]) [k..<k + length fcs]))"
proof (induction fcs arbitrary: k st new)
  case Nil
  then show ?case by simp
next
  case (Cons gates fcs)
  from Cons.prems have rng: "k < length nqs" "k < length pss"
    by (auto split: if_splits)
  let ?r = "simulate_circuit E k (nqs ! k) gates (pss ! k) st"
  from Cons.prems rng obtain st' where st': "state_of ?r = Some st'"
    by (cases ?r) auto
  from simulate_circuit_calls[OF st'] obtain n1 where n1: "calls st' = calls st @ n1"
    "\<forall>p \<in> set (writes n1). fst p = k" "\<forall>x \<in> set (expects n1). fst x = k"
    "expects n1 \<noteq> [] \<longrightarrow> gates \<noteq> []"
    "gates = [] \<longrightarrow> (\<forall>a b v. EvWrite a b v \<in> set n1 \<longrightarrow> v = - 2)"
    by blast
  note o1 = simulate_circuit_outcome[OF st' n1(1)]
  have e1: "\<forall>x \<in> set (expects n1). (gates # fcs) ! (fst x - k) \<noteq> []"
    using n1(3,4) by auto
  have w1: "\<forall>a b v. EvWrite a b v \<in> set n1 \<longrightarrow> (gates # fcs) ! (a - k) = [] \<longrightarrow> v = - 2"
  proof (intro allI impI)
    fix a b v assume m: "EvWrite a b v \<in> set n1" and z: "(gates # fcs) ! (a - k) = []"
    from m have "(a, b) \<in> set (writes n1)" by (auto simp: writes_mem)
    with n1(2) have "a = k" by auto
    with z n1(5) m show "v = - 2" by auto
  qed
  have up: "[k..<k + length (gates # fcs)] = k # [Suc k..<Suc k + length fcs]"
    by (subst upt_rec) simp
  show ?case
  proof (cases ?r)
    case (Done x)
    with st' have x: "x = st'" by simp
    with Done Cons.prems rng have run: "state_of (circuits_loop E nqs pss (Suc k) fcs st') = Some s"
      and eq: "circuits_loop E nqs pss k (gates # fcs) st = circuits_loop E nqs pss (Suc k) fcs st'"
      by simp_all
    from circuits_loop_calls[OF run] obtain n2 where n2: "calls s = calls st' @ n2"
      "\<forall>p \<in> set (writes n2). Suc k \<le> fst p \<and> fst p < Suc k + length fcs"
      "\<forall>x \<in> set (expects n2). Suc k \<le> fst x \<and> fst x < Suc k + length fcs"
      by blast
    with n1 Cons.prems(2) have new: "new = n1 @ n2" by simp
    from o1 Done have wr1: "writes n1 = map (Pair k) [0..<length (pss ! k)]" by simp
    note ih = Cons.IH[OF run n2(1)]
    have e2: "\<forall>x \<in> set (expects n2). (gates # fcs) ! (fst x - k) \<noteq> []"
    proof
      fix x assume x: "x \<in> set (expects n2)"
      with n2(3) have "Suc k \<le> fst x" by auto
      then have "fst x - k = Suc (fst x - Suc k)" by simp
      with ih x show "(gates # fcs) ! (fst x - k) \<noteq> []" by simp
    qed
    have w2: "\<forall>a b v. EvWrite a b v \<in> set n2 \<longrightarrow> (gates # fcs) ! (a - k) = [] \<longrightarrow> v = - 2"
    proof (intro allI impI)
      fix a b v assume m: "EvWrite a b v \<in> set n2" and z: "(gates # fcs) ! (a - k) = []"
      from m have "(a, b) \<in> set (writes n2)" by (auto simp: writes_mem)
      with n2(2) have "Suc k \<le> a" by auto
      then have "a - k = Suc (a - Suc k)" by simp
      with z have "fcs ! (a - Suc k) = []" by simp
      with ih m show "v = - 2" by blast
    qed
    from ih e1 w1 e2 w2 wr1 show ?thesis
      unfolding eq new up by (auto simp: expects_append writes_append)
  next
    case (Failed e x)
    with st' Cons.prems rng have s: "s = st'" by simp
    with n1 Cons.prems(2) have new: "new = n1" by simp
    from Failed rng have eq: "circuits_loop E nqs pss k (gates # fcs) st = Failed e x" by simp
    from e1 w1 show ?thesis unfolding eq new by simp
  next
    case Undefined
    with st' show ?thesis by simp
  qed
qed

text \<open>
  Claim C2. For a circuit \<open>i\<close> without gates the expectation primitive is never called,
  whatever its row of observables holds, and every store into row \<open>i\<close> stores - 2,
  which the cell still holds at the end of the run, also of a run that fails later. When
  the run reaches its end, every cell of row \<open>i\<close> that has an observable holds - 2, and
  the whole row does when the row of observables is as wide as the tensor.
\<close>

theorem empty_circuit_sentinel:
  assumes "state_of (ComputeLarge E nqs fcs pss out) = Some s"
    and "i < length fcs" and "fcs ! i = []"
  shows "(\<forall>j e. EvExpect i j e \<notin> set (calls s)) \<and>
         (\<forall>j v. EvWrite i j v \<in> set (calls s) \<longrightarrow>
            v = - 2 \<and> output_tensor s ! i ! j = - 2) \<and>
         (ComputeLarge E nqs fcs pss out = Done s \<longrightarrow>
            (\<forall>j < length (pss ! i). output_tensor s ! i ! j = - 2) \<and>
            (i < length out \<and> length (pss ! i) = length (out ! i) \<longrightarrow>
               output_tensor s ! i = replicate (length (out ! i)) (- 2)))"
proof -
  let ?st = "initial_state E out"
  from assms(1) have run: "state_of (circuits_loop E nqs pss 0 fcs ?st) = Some s"
    by (simp add: ComputeLarge_def)
  from assms(1) obtain new where n: "calls s = [EvCreate 1, EvCreate 1] @ new"
    "output_tensor s = replay new out" "sorted_wrt (<) (writes new)"
    "\<forall>p \<in> set (writes new). in_range out p \<and> fst p < length fcs"
    by (rule run_facts)
  have c: "calls s = calls ?st @ new" using n(1) by (simp add: initial_state_def)
  from circuits_loop_events[OF run c]
  have ev: "\<forall>x \<in> set (expects new). fcs ! fst x \<noteq> []"
    "\<forall>a b v. EvWrite a b v \<in> set new \<longrightarrow> fcs ! a = [] \<longrightarrow> v = - 2"
    "circuits_loop E nqs pss 0 fcs ?st = Done s \<longrightarrow>
      writes new = concat (map (\<lambda>a. map (Pair a) [0..<length (pss ! a)]) [0..<0 + length fcs])"
    by simp_all
  have d: "distinct (writes new)" using n(3) by (simp add: strict_sorted_iff)
  have p1: "EvExpect i j e \<notin> set (calls s)" for j e
  proof
    assume "EvExpect i j e \<in> set (calls s)"
    with n(1) have "EvExpect i j e \<in> set new" by auto
    then have "(i, j, e) \<in> set (expects new)" by (simp add: expects_mem)
    with ev(1) assms(3) show False by auto
  qed
  have p2: "v = - 2 \<and> output_tensor s ! i ! j = - 2" if "EvWrite i j v \<in> set (calls s)" for j v
  proof -
    from that n(1) have m: "EvWrite i j v \<in> set new" by auto
    with ev(2) assms(3) have v: "v = - 2" by blast
    from m have "(i, j) \<in> set (writes new)" by (auto simp: writes_mem)
    with n(4) have "i < length out" "j < length (out ! i)" by (auto simp: in_range_def)
    from replay_written[OF m d this] n(2) v show ?thesis by simp
  qed
  have p3: "output_tensor s ! i ! j = - 2"
    if dn: "ComputeLarge E nqs fcs pss out = Done s" and j: "j < length (pss ! i)" for j
  proof -
    from dn ev(3) have "writes new =
        concat (map (\<lambda>a. map (Pair a) [0..<length (pss ! a)]) [0..<length fcs])"
      by (simp add: ComputeLarge_def)
    with assms(2) j have w: "(i, j) \<in> set (writes new)"
      by (auto intro!: bexI[of _ i])
    then obtain v where m: "EvWrite i j v \<in> set new" by (auto simp: writes_mem)
    with ev(2) assms(3) have v: "v = - 2" by blast
    from w n(4) have "i < length out" "j < length (out ! i)" by (auto simp: in_range_def)
    from replay_written[OF m d this] n(2) v show ?thesis by simp
  qed
  have p4: "output_tensor s ! i = replicate (length (out ! i)) (- 2)"
    if dn: "ComputeLarge E nqs fcs pss out = Done s" and l: "length (pss ! i) = length (out ! i)"
      and r: "i < length out"
  proof -
    have "map length (output_tensor s) = map length out"
      unfolding n(2) by (rule replay_shape)
    with r have "length (output_tensor s ! i) = length (out ! i)"
      by (metis length_map nth_map)
    with p3[OF dn] l show ?thesis by (simp add: list_eq_iff_nth_eq)
  qed
  from p1 p2 p3 p4 show ?thesis by blast
qed

theorem empty_circuit_sentinel_witness:
  "ComputeLarge demo_engine [1, 2] [[], [1]] [[- 1, 4], [5, 6]] [[9, 9], [9, 9]] =
     Done \<lparr>largest_nq = 2, sv = (2, 1), scratch = (2, 1), output_tensor = [[- 2, - 2], [5, 6]],
           calls = [EvCreate 1, EvCreate 1, EvSetStateZero, EvWrite 0 0 (- 2),
                    EvWrite 0 1 (- 2), EvCreate 2, EvCreate 2, EvSetStateZero, EvApply 1,
                    EvExpect 1 0 OK, EvWrite 1 0 5, EvExpect 1 1 OK, EvWrite 1 1 6]\<rparr> \<and>
   (0 :: nat) < length [[], [1 :: int]] \<and> [[], [1 :: int]] ! 0 = [] \<and>
   [[- 2, - 2], [5, 6 :: real]] ! 0 = replicate (length ([[9, 9], [9, 9 :: real]] ! 0)) (- 2)"
proof -
  let ?s = "\<lparr>largest_nq = 2, sv = (2 :: int, 1 :: int), scratch = (2 :: int, 1 :: int),
           output_tensor = [[- 2, - 2], [5, 6]],
           calls = [EvCreate 1, EvCreate 1, EvSetStateZero, EvWrite 0 0 (- 2),
                    EvWrite 0 1 (- 2), EvCreate 2, EvCreate 2, EvSetStateZero,
                    EvApply (1 :: int),
                    EvExpect 1 0 OK, EvWrite 1 0 5, EvExpect 1 1 OK, EvWrite 1 1 6]\<rparr>"
  have run: "ComputeLarge demo_engine [1, 2] [[], [1]] [[- 1, 4], [5, 6]] [[9, 9], [9, 9]] =
      Done ?s"
    by (simp add: run_simps)
  have h1: "state_of (ComputeLarge demo_engine [1, 2] [[], [1]] [[- 1, 4], [5, 6]]
      [[9, 9], [9, 9]]) = Some ?s"
    by (simp add: run)
  have h2: "(0 :: nat) < length [[], [1 :: int]]" by simp
  have h3: "[[], [1 :: int]] ! 0 = []" by simp
  from empty_circuit_sentinel[OF h1 h2 h3] run show ?thesis by simp
qed

section \<open>The construction phase\<close>

lemma sync_ok [simp]:
  "ok (NESTED_FN_STATUS_SYNC g l) \<longleftrightarrow> ok g \<and> ok l"
  by (cases g; cases l) (auto simp: NESTED_FN_STATUS_SYNC_def)

lemma sync_keeps_error [simp]: "\<not> ok g \<Longrightarrow> NESTED_FN_STATUS_SYNC g l = g"
  by (simp add: NESTED_FN_STATUS_SYNC_def)

lemma sync_OK [simp]: "NESTED_FN_STATUS_SYNC OK l = l"
  by (cases l) (auto simp: NESTED_FN_STATUS_SYNC_def)

lemma recorded_simps [simp]:
  "recorded [] g = g" "recorded (l # ls) g = recorded ls (NESTED_FN_STATUS_SYNC g l)"
  by (simp_all add: recorded_def)

lemma recorded_error [simp]: "\<not> ok g \<Longrightarrow> recorded ls g = g"
  by (induction ls arbitrary: g) auto

lemma recorded_ok [simp]: "ok (recorded ls g) \<longleftrightarrow> ok g \<and> list_all ok ls"
  by (induction ls arbitrary: g) auto

lemma recorded_first:
  "recorded ls OK = (case filter (\<lambda>l. \<not> ok l) ls of [] \<Rightarrow> OK | e # es \<Rightarrow> e)"
proof (induction ls)
  case Nil
  then show ?case by simp
next
  case (Cons l ls)
  then show ?case by (cases "ok l") (auto elim: ok.elims)
qed

lemma run_schedule_result:
  "run_schedule C P M N order st =
     (if \<forall>i \<in> set order. i < length P \<and> i < length M \<and> i < length N \<and>
           i < length (qsim_circuits st) \<and> i < length (fused_circuits st)
      then Some \<lparr>qsim_circuits =
                   map (\<lambda>i. if i \<in> set order
                             then fst (snd (QsimCircuitFromProgram C (P ! i) (M ! i) (N ! i)))
                             else qsim_circuits st ! i) [0..<length (qsim_circuits st)],
                 fused_circuits =
                   map (\<lambda>i. if i \<in> set order
                             then snd (snd (QsimCircuitFromProgram C (P ! i) (M ! i) (N ! i)))
                             else fused_circuits st ! i) [0..<length (fused_circuits st)],
                 parse_status =
                   recorded (map (\<lambda>i. fst (QsimCircuitFromProgram C (P ! i) (M ! i) (N ! i))) order)
                     (parse_status st),
                 built = built st @ order\<rparr>
      else None)"
proof (induction order arbitrary: st)
  case Nil
  show ?case by (simp add: map_nth)
next
  case (Cons i order)
  show ?case
  proof (cases "i < length P \<and> i < length M \<and> i < length N \<and>
           i < length (qsim_circuits st) \<and> i < length (fused_circuits st)")
    case False
    then show ?thesis by (auto simp: construct_body_def)
  next
    case True
    obtain l c f where q: "QsimCircuitFromProgram C (P ! i) (M ! i) (N ! i) = (l, c, f)"
      by (cases "QsimCircuitFromProgram C (P ! i) (M ! i) (N ! i)") auto
    let ?st' = "\<lparr>qsim_circuits = (qsim_circuits st)[i := c],
                   fused_circuits = (fused_circuits st)[i := f],
                   parse_status = NESTED_FN_STATUS_SYNC (parse_status st) l,
                   built = built st @ [i]\<rparr>"
    have b: "construct_body C P M N i st = Some ?st'"
      using True q by (simp add: construct_body_def)
    have m1: "map (\<lambda>j. if j \<in> set order then g j else (xs[i := g i]) ! j) [0..<length xs] =
              map (\<lambda>j. if j \<in> set (i # order) then g j else xs ! j) [0..<length xs]"
      for g :: "nat \<Rightarrow> 'x" and xs
      by (auto simp: nth_list_update)
    show ?thesis
      using True q m1[of "\<lambda>j. fst (snd (QsimCircuitFromProgram C (P ! j) (M ! j) (N ! j)))"
                      "qsim_circuits st"]
        m1[of "\<lambda>j. snd (snd (QsimCircuitFromProgram C (P ! j) (M ! j) (N ! j)))"
              "fused_circuits st"]
      by (simp add: b Cons.IH)
  qed
qed

lemma run_schedule_append:
  "run_schedule C P M N (xs @ ys) st =
     (case run_schedule C P M N xs st of
        None \<Rightarrow> None
      | Some st' \<Rightarrow> run_schedule C P M N ys st')"
  by (induction xs arbitrary: st) (auto split: option.splits)

lemma run_chunks_schedule:
  "run_chunks C P M N chunks st = run_schedule C P M N (schedule_of chunks) st"
  by (induction chunks arbitrary: st)
     (auto simp: schedule_of_def construct_f_def run_schedule_append split: option.splits)

lemma blocks_upto:
  "concat (map (\<lambda>b. [b * k..<min ((b + 1) * k) n]) [0..<m]) = [0..<min (m * k) n]"
proof (induction m)
  case 0
  show ?case by simp
next
  case (Suc m)
  show ?case
  proof (cases "m * k \<le> n")
    case True
    then have "m * k \<le> min (Suc m * k) n" by simp
    then obtain d where d: "min (Suc m * k) n = m * k + d" using le_Suc_ex by blast
    have "[0..<m * k] @ [m * k..<min (Suc m * k) n] = [0..<min (Suc m * k) n]"
      unfolding d using upt_add_eq_append[of 0 "m * k" d] by simp
    with Suc True show ?thesis by (simp add: min_absorb1)
  next
    case False
    then have "min (m * k) n = n" "min (Suc m * k) n = n" by auto
    with Suc False show ?thesis by simp
  qed
qed

lemma schedule_of_chunks_of: "0 < k \<Longrightarrow> schedule_of (chunks_of k n) = [0..<n]"
proof -
  assume k: "0 < k"
  have "n \<le> ((n + k - 1) div k) * k"
  proof -
    have "n + k - 1 < ((n + k - 1) div k) * k + k"
      using k by (metis add.commute dividend_less_div_times)
    then show ?thesis by linarith
  qed
  then have "min (((n + k - 1) div k) * k) n = n" by simp
  with blocks_upto[of k n "(n + k - 1) div k"] show ?thesis
    by (simp add: schedule_of_def chunks_of_def comp_def)
qed

lemma run_schedule_perm:
  assumes "set o1 = set o2"
  shows "(run_schedule C P M N o1 st = None \<longleftrightarrow> run_schedule C P M N o2 st = None) \<and>
         (\<forall>b1 b2. run_schedule C P M N o1 st = Some b1 \<and> run_schedule C P M N o2 st = Some b2 \<longrightarrow>
            qsim_circuits b1 = qsim_circuits b2 \<and> fused_circuits b1 = fused_circuits b2 \<and>
            (ok (parse_status b1) \<longleftrightarrow> ok (parse_status b2)))"
  using assms by (auto simp: run_schedule_result list_all_iff)

lemma after_barrier_perm:
  assumes "qsim_circuits b1 = qsim_circuits b2" "fused_circuits b1 = fused_circuits b2"
    "ok (parse_status b1) \<longleftrightarrow> ok (parse_status b2)"
  shows "map_option observable (after_barrier E N PS out b1) =
         map_option observable (after_barrier E N PS out b2)"
  using assms by (simp add: after_barrier_def observable_def split: outcome.splits)

lemma construct_perm:
  assumes "set o1 = set o2"
  shows "map_option observable
           (case run_schedule C P M N o1 st of
              None \<Rightarrow> None | Some bs \<Rightarrow> after_barrier E N' PS out bs) =
         map_option observable
           (case run_schedule C P M N o2 st of
              None \<Rightarrow> None | Some bs \<Rightarrow> after_barrier E N' PS out bs)"
proof (cases "run_schedule C P M N o1 st")
  case None
  with run_schedule_perm[OF assms, of C P M N st] show ?thesis by simp
next
  case (Some b1)
  with run_schedule_perm[OF assms, of C P M N st] obtain b2
    where b2: "run_schedule C P M N o2 st = Some b2" by auto
  with Some run_schedule_perm[OF assms, of C P M N st]
  have "qsim_circuits b1 = qsim_circuits b2" "fused_circuits b1 = fused_circuits b2"
    "ok (parse_status b1) \<longleftrightarrow> ok (parse_status b2)" by auto
  from after_barrier_perm[OF this] Some b2 show ?thesis by simp
qed

text \<open>
  Claim C5. Two runs of the kernel on the same inputs, with the range cut into chunks of
  any two sizes (1 and the whole batch among them) and the loop bodies of the chunks
  interleaved in any two ways, agree on everything a caller can see: both abort, or both
  return with the same built circuits and fused gate lists, the same output tensor, the
  same success or failure and the same calls of the simulation phase.
\<close>

theorem construction_deterministic:
  assumes "0 < k1" and "0 < k2"
    and "n = length (fst (snd (GetProgramsAndNumQubits C ctx)))"
    and "mset o1 = mset (schedule_of (chunks_of k1 n))"
    and "mset o2 = mset (schedule_of (chunks_of k2 n))"
  shows "map_option observable (Compute E C o1 ctx) = map_option observable (Compute E C o2 ctx)"
proof -
  from assms have "mset o1 = mset o2" by (simp add: schedule_of_chunks_of)
  then have s: "set o1 = set o2" by (rule mset_eq_setD)
  note p = construct_perm[OF s]
  show ?thesis
    unfolding Compute_def Let_def
    by (simp add: p split: option.splits prod.splits)
qed

theorem construction_deterministic_witness:
  "map_option observable
     (Compute demo_engine demo_collaborators [2, 0, 1] (demo_context [''a'', ''b'', ''ab''] [0, 0, 0])) =
   map_option observable
     (Compute demo_engine demo_collaborators [0, 1, 2] (demo_context [''a'', ''b'', ''ab''] [0, 0, 0])) \<and>
   mset [2, 0, 1] = mset (schedule_of (chunks_of 1 3)) \<and>
   mset [0, 1, 2] = mset (schedule_of (chunks_of 3 3)) \<and>
   expectations (the (Compute demo_engine demo_collaborators [2, 0, 1]
     (demo_context [''a'', ''b'', ''ab''] [0, 0, 0]))) = Some [[1, 0], [2, 0], [3, 0]]"
proof -
  let ?ctx = "demo_context [''a'', ''b'', ''ab''] [0, 0, 0]"
  have h1: "(0 :: nat) < 1" and h2: "(0 :: nat) < 3" by simp_all
  have h3: "3 = length (fst (snd (GetProgramsAndNumQubits demo_collaborators ?ctx)))"
    by (simp add: kernel_simps)
  have h4: "mset [2, 0, 1] = mset (schedule_of (chunks_of 1 3))"
    by (simp add: schedule_of_chunks_of upt_rec)
  have h5: "mset [0, 1, 2] = mset (schedule_of (chunks_of 3 3))"
    by (simp add: schedule_of_chunks_of upt_rec)
  have run: "expectations (the (Compute demo_engine demo_collaborators [2, 0, 1] ?ctx)) =
      Some [[1, 0], [2, 0], [3, 0]]"
    by (simp add: kernel_simps run_simps)
  from construction_deterministic[OF h1 h2 h3 h4 h5, of demo_engine] h4 h5 run
  show ?thesis by simp
qed

lemma Compute_constructs:
  assumes "length (inputs ctx) = 4" "ok (alloc_status ctx)"
    "GetProgramsAndNumQubits C ctx = (OK, P, N, PS)" "GetSymbolMaps C ctx = (OK, M)"
    "length P = length M" "Compute E C order ctx = Some r"
  shows "\<exists>out bs.
           run_schedule C P M N order
             \<lparr>qsim_circuits = replicate (length P) (QsimCircuit0 C),
              fused_circuits = replicate (length P) [], parse_status = OK, built = []\<rparr> = Some bs \<and>
           after_barrier E N PS out bs = Some r"
  using assms unfolding Compute_def Let_def
  by (simp split: option.splits prod.splits if_splits) blast

text \<open>
  Claim C3. When some circuit of the batch fails to build, the invocation fails and
  \<^verbatim>\<open>ComputeLarge\<close> is not entered: no primitive is called. The loop body has
  nevertheless run for every index of the schedule. The status reported is the first
  failure in the order in which the bodies took effect, and a status that already holds
  an error is never replaced.
\<close>

theorem construction_barrier:
  assumes "Compute E C order ctx = Some r"
    and "length (inputs ctx) = 4" and "ok (alloc_status ctx)"
    and "GetProgramsAndNumQubits C ctx = (OK, programs, num_qubits, pauli_sums)"
    and "GetSymbolMaps C ctx = (OK, maps)" and "length programs = length maps"
    and "mset order = mset [0..<length programs]"
    and "i < length programs"
    and "\<not> ok (fst (QsimCircuitFromProgram C (programs ! i) (maps ! i) (num_qubits ! i)))"
  shows "\<not> ok (ctx_status r) \<and> simulation r = [] \<and>
         (\<exists>bs. construction r = Some bs \<and> built bs = order \<and> ctx_status r = parse_status bs \<and>
            parse_status bs =
              hd (filter (\<lambda>l. \<not> ok l)
                   (map (\<lambda>i. fst (QsimCircuitFromProgram C (programs ! i) (maps ! i)
                                     (num_qubits ! i))) order))) \<and>
         (\<forall>g l. \<not> ok g \<longrightarrow> NESTED_FN_STATUS_SYNC g l = g)"
proof -
  let ?init = "\<lparr>qsim_circuits = replicate (length programs) (QsimCircuit0 C),
              fused_circuits = replicate (length programs) [], parse_status = OK, built = []\<rparr>"
  let ?f = "\<lambda>i. fst (QsimCircuitFromProgram C (programs ! i) (maps ! i) (num_qubits ! i))"
  from Compute_constructs[OF assms(2,3,4,5,6,1)] obtain out bs where
    run: "run_schedule C programs maps num_qubits order ?init = Some bs"
    and ab: "after_barrier E num_qubits pauli_sums out bs = Some r" by blast
  from run have bs: "built bs = order" "parse_status bs = recorded (map ?f order) OK"
    by (auto simp: run_schedule_result split: if_splits)
  from assms(7) have "set order = {0..<length programs}"
    by (metis mset_eq_setD set_upt)
  with assms(8) have mem: "i \<in> set order" by simp
  with assms(9) have ne: "filter (\<lambda>l. \<not> ok l) (map ?f order) \<noteq> []"
    by (auto simp: filter_empty_conv)
  then have hd: "recorded (map ?f order) OK = hd (filter (\<lambda>l. \<not> ok l) (map ?f order))"
    by (cases "filter (\<lambda>l. \<not> ok l) (map ?f order)") (simp_all add: recorded_first)
  have nok: "\<not> ok (parse_status bs)"
    using bs(2) mem assms(9) by (auto simp: list_all_iff)
  from ab nok have r: "r = \<lparr>ctx_status = parse_status bs, expectations = Some out,
      construction = Some bs, simulation = []\<rparr>"
    by (simp add: after_barrier_def)
  show ?thesis using r nok bs hd by simp
qed

theorem construction_barrier_witness:
  "Compute demo_engine demo_collaborators [2, 0, 1]
     (demo_context [''a'', ''x'', ''xb''] [0, 0, 0]) =
     Some \<lparr>ctx_status = Error (OTHER_CODE 5) ''xb'',
           expectations = Some [[9, 9], [9, 9], [9, 9]],
           construction =
             Some \<lparr>qsim_circuits = [''a'', ''x'', ''xb''],
                   fused_circuits = [[1], [2], [2, 2]],
                   parse_status = Error (OTHER_CODE 5) ''xb'', built = [2, 0, 1]\<rparr>,
           simulation = []\<rparr> \<and>
   \<not> ok (fst (QsimCircuitFromProgram demo_collaborators ''x'' 0 1)) \<and>
   \<not> ok (Error (OTHER_CODE 5) ''xb'')"
proof -
  let ?ctx = "demo_context [''a'', ''x'', ''xb''] [0, 0, 0]"
  let ?r = "\<lparr>ctx_status = Error (OTHER_CODE 5) ''xb'',
           expectations = Some [[9, 9], [9, 9], [9, 9]],
           construction =
             Some \<lparr>qsim_circuits = [''a'', ''x'', ''xb''],
                   fused_circuits = [[1], [2], [2, 2 :: int]],
                   parse_status = Error (OTHER_CODE 5) ''xb'', built = [2, 0, 1]\<rparr>,
           simulation = []\<rparr>"
  have h1: "Compute demo_engine demo_collaborators [2, 0, 1] ?ctx = Some ?r"
    by (simp add: kernel_simps)
  have h2: "length (inputs ?ctx) = 4" by (simp add: demo_context_def)
  have h3: "ok (alloc_status ?ctx)" by (simp add: demo_context_def)
  have h4: "GetProgramsAndNumQubits demo_collaborators ?ctx =
      (OK, [''a'', ''x'', ''xb''], [1, 1, 2], [[1, 0], [1, 0], [1, 0]])"
    by (simp add: kernel_simps)
  have h5: "GetSymbolMaps demo_collaborators ?ctx = (OK, [0, 0, 0])"
    by (simp add: kernel_simps)
  have h6: "length [''a'', ''x'', ''xb''] = length [0, 0, 0 :: real]" by simp
  have h7: "mset [2, 0, 1] = mset [0..<length [''a'', ''x'', ''xb'']]"
    by (simp add: upt_rec)
  have h8: "1 < length [''a'', ''x'', ''xb'']" by simp
  have h9: "\<not> ok (fst (QsimCircuitFromProgram demo_collaborators
      ([''a'', ''x'', ''xb''] ! 1) ([0, 0, 0] ! 1) ([1, 1, 2] ! 1)))"
    by (simp add: demo_collaborators_def)
  from construction_barrier[OF h1 h2 h3 h4 h5 h6 h7 h8 h9] h1 h9 show ?thesis by simp
qed

section \<open>Validation of the inputs\<close>

text \<open>
  Claim C8. With a number of inputs other than four the kernel fails with
  \<^verbatim>\<open>InvalidArgument\<close> before it allocates, builds or simulates anything. With four
  inputs, when the number of programs differs from the number of symbol maps, of
  observable rows or of qubit counts, it fails with \<^verbatim>\<open>InvalidArgument\<close> and no circuit
  is built and no primitive called. Conversely, whenever something was built or
  simulated, there were four inputs and all these counts agreed.
\<close>

theorem preconditions_checked:
  assumes "Compute E C order ctx = Some r"
  shows "(length (inputs ctx) \<noteq> 4 \<longrightarrow>
            ctx_status r = Error INVALID_ARGUMENT
              (''Expected 4 inputs, got '' @ show_int (int (length (inputs ctx))) @ '' inputs.'') \<and>
            expectations r = None \<and> construction r = None \<and> simulation r = []) \<and>
         (ok (alloc_status ctx) \<and> parse_programs C ctx = (OK, programs, num_qubits, pauli_sums) \<and>
          GetSymbolMaps C ctx = (OK, maps) \<and>
          \<not> (length programs = length maps \<and> length programs = length pauli_sums \<and>
             length programs = length num_qubits) \<longrightarrow>
            (\<exists>m. ctx_status r = Error INVALID_ARGUMENT m) \<and>
            construction r = None \<and> simulation r = []) \<and>
         (construction r \<noteq> None \<or> simulation r \<noteq> [] \<longrightarrow>
            length (inputs ctx) = 4 \<and>
            (case (parse_programs C ctx, GetSymbolMaps C ctx) of
               ((s1, ps, ns, os), (s2, ms)) \<Rightarrow>
                 ok s1 \<and> ok s2 \<and> length ps = length ms \<and> length ps = length os \<and>
                 length ps = length ns))"
proof (intro conjI impI)
  assume "length (inputs ctx) \<noteq> 4"
  with assms have "r = \<lparr>ctx_status = Error INVALID_ARGUMENT
      (''Expected 4 inputs, got '' @ show_int (int (length (inputs ctx))) @ '' inputs.''),
      expectations = None, construction = None, simulation = []\<rparr>"
    by (simp add: Compute_def)
  then show "ctx_status r = Error INVALID_ARGUMENT
      (''Expected 4 inputs, got '' @ show_int (int (length (inputs ctx))) @ '' inputs.'')"
    "expectations r = None" "construction r = None" "simulation r = []"
    by simp_all
next
  assume a: "ok (alloc_status ctx) \<and> parse_programs C ctx = (OK, programs, num_qubits, pauli_sums) \<and>
          GetSymbolMaps C ctx = (OK, maps) \<and>
          \<not> (length programs = length maps \<and> length programs = length pauli_sums \<and>
             length programs = length num_qubits)"
  have "(\<exists>m. ctx_status r = Error INVALID_ARGUMENT m) \<and> construction r = None \<and> simulation r = []"
    using assms a unfolding Compute_def Let_def GetProgramsAndNumQubits_def
    by (simp split: option.splits prod.splits if_splits) auto
  then show "\<exists>m. ctx_status r = Error INVALID_ARGUMENT m" "construction r = None"
    "simulation r = []" by simp_all
next
  assume w: "construction r \<noteq> None \<or> simulation r \<noteq> []"
  have "length (inputs ctx) = 4 \<and>
            (case (parse_programs C ctx, GetSymbolMaps C ctx) of
               ((s1, ps, ns, os), (s2, ms)) \<Rightarrow>
                 ok s1 \<and> ok s2 \<and> length ps = length ms \<and> length ps = length os \<and>
                 length ps = length ns)"
    using assms w unfolding Compute_def Let_def GetProgramsAndNumQubits_def
    by (simp split: option.splits prod.splits if_splits) auto
  then show "length (inputs ctx) = 4"
    "case (parse_programs C ctx, GetSymbolMaps C ctx) of
               ((s1, ps, ns, os), (s2, ms)) \<Rightarrow>
                 ok s1 \<and> ok s2 \<and> length ps = length ms \<and> length ps = length os \<and>
                 length ps = length ns"
    by simp_all
qed

theorem preconditions_checked_witness:
  "Compute demo_engine demo_collaborators [0]
     ((demo_context [''a''] [0])\<lparr>inputs := take 3 (inputs (demo_context [''a''] [0]))\<rparr>) =
     Some \<lparr>ctx_status = Error INVALID_ARGUMENT ''Expected 4 inputs, got 3 inputs.'',
           expectations = None, construction = None, simulation = []\<rparr> \<and>
   Compute demo_engine demo_collaborators [0, 1] (demo_context [''a'', ''b''] [0]) =
     Some \<lparr>ctx_status = Error INVALID_ARGUMENT
             ''Number of circuits and symbol_values do not match. Got 2 circuits and 1 symbol values.'',
           expectations = Some [[9, 9], [9, 9]], construction = None, simulation = []\<rparr> \<and>
   length [''a'', ''b''] \<noteq> length [0 :: real] \<and>
   construction (the (Compute demo_engine demo_collaborators [0, 1]
     (demo_context [''a'', ''b''] [0, 0]))) =
     Some \<lparr>qsim_circuits = [''a'', ''b''], fused_circuits = [[1], [2]], parse_status = OK,
           built = [0, 1]\<rparr> \<and>
   length (inputs (demo_context [''a'', ''b''] [0, 0])) = 4"
proof -
  let ?c2 = "demo_context [''a'', ''b''] [0, 0]"
  let ?r2 = "\<lparr>ctx_status = OK, expectations = Some [[1, 0], [2, 0]],
      construction = Some \<lparr>qsim_circuits = [''a'', ''b''], fused_circuits = [[1], [2 :: int]],
        parse_status = OK, built = [0, 1]\<rparr>,
      simulation = [EvCreate 1, EvCreate 1, EvSetStateZero, EvApply 1, EvExpect 0 0 OK,
        EvWrite 0 0 1, EvExpect 0 1 OK, EvWrite 0 1 0, EvSetStateZero, EvApply 2,
        EvExpect 1 0 OK, EvWrite 1 0 2, EvExpect 1 1 OK, EvWrite 1 1 0]\<rparr>"
  have h5: "Compute demo_engine demo_collaborators [0, 1] ?c2 = Some ?r2"
    by (simp add: kernel_simps run_simps)
  have h6: "construction ?r2 \<noteq> None \<or> simulation ?r2 \<noteq> []" by simp
  let ?c3 = "(demo_context [''a''] [0])\<lparr>inputs := take 3 (inputs (demo_context [''a''] [0]))\<rparr>"
  let ?r3 = "\<lparr>ctx_status = Error INVALID_ARGUMENT ''Expected 4 inputs, got 3 inputs.'',
           expectations = None, construction = None :: (string, int) build_state option,
           simulation = []\<rparr>"
  let ?c = "demo_context [''a'', ''b''] [0]"
  let ?r = "\<lparr>ctx_status = Error INVALID_ARGUMENT
             ''Number of circuits and symbol_values do not match. Got 2 circuits and 1 symbol values.'',
           expectations = Some [[9, 9], [9, 9]],
           construction = None :: (string, int) build_state option, simulation = []\<rparr>"
  have h1: "Compute demo_engine demo_collaborators [0] ?c3 = Some ?r3"
    by (simp add: kernel_simps show_int_def show_nat.simps)
  have h2: "Compute demo_engine demo_collaborators [0, 1] ?c = Some ?r"
    by (simp add: kernel_simps show_nat.simps)
  have h3: "length (inputs ?c3) \<noteq> 4" by (simp add: demo_context_def)
  have h4: "ok (alloc_status ?c) \<and>
      parse_programs demo_collaborators ?c = (OK, [''a'', ''b''], [1, 1], [[1, 0], [1, 0]]) \<and>
      GetSymbolMaps demo_collaborators ?c = (OK, [0]) \<and>
      \<not> (length [''a'', ''b''] = length [0 :: real] \<and>
         length [''a'', ''b''] = length [[1, 0], [1, 0 :: int]] \<and>
         length [''a'', ''b''] = length [1, 1 :: int])"
    by (simp add: kernel_simps)
  from preconditions_checked[OF h1] h3
    preconditions_checked[OF h2, of "[''a'', ''b'']" "[1, 1]" "[[1, 0], [1, 0]]" "[0]"] h4 h1 h2
    preconditions_checked[OF h5] h5 h6
  show ?thesis by simp
qed

section \<open>The shape of the output\<close>






section \<open>Reuse of the shared buffers\<close>









end
